theory Spec2Isabelle
  imports Complex_Main "HOL-Library.AList"
begin

section \<open>Text: Python strings as lists of code points\<close>

text \<open>
  A Python \<^verbatim>\<open>str\<close> is a sequence of Unicode code points and \<^verbatim>\<open>len\<close> counts code
  points, so text is a list of natural numbers. \<open>ustr\<close> turns an ASCII literal into
  such a list.
\<close>

type_synonym ustring = "nat list"

definition ustr :: "string \<Rightarrow> ustring" where
  "ustr s = map of_char s"

text \<open>
  The characters that \<^verbatim>\<open>\s\<close> matches in a \<^verbatim>\<open>str\<close> pattern and that \<^verbatim>\<open>str.strip()\<close>
  removes: both use the interpreter's one whitespace test on code points.
\<close>

definition is_space :: "nat \<Rightarrow> bool" where
  "is_space c \<longleftrightarrow>
     (9 \<le> c \<and> c \<le> 13) \<or> (28 \<le> c \<and> c \<le> 32) \<or> c = 133 \<or> c = 160 \<or> c = 5760 \<or>
     (8192 \<le> c \<and> c \<le> 8202) \<or> c = 8232 \<or> c = 8233 \<or> c = 8239 \<or> c = 8287 \<or> c = 12288"

text \<open>The character class \<^verbatim>\<open>[.!?]\<close>.\<close>

definition is_terminal :: "nat \<Rightarrow> bool" where
  "is_terminal c \<longleftrightarrow> c = 46 \<or> c = 33 \<or> c = 63"

text \<open>\<^verbatim>\<open>s.strip()\<close>: leading and trailing whitespace removed.\<close>

definition strip :: "ustring \<Rightarrow> ustring" where
  "strip s = rev (dropWhile is_space (rev (dropWhile is_space s)))"

section \<open>The segmenter: \<^verbatim>\<open>simple_segment\<close>\<close>

text \<open>
  \<^verbatim>\<open>re.split(r'(?<=[.!?])\s+', text)\<close>. The scan goes left to right; \<open>behind\<close> says
  whether the look-behind \<^verbatim>\<open>(?<=[.!?])\<close> holds at the current position, \<open>piece\<close> is
  the text since the end of the last match. A match starts at a whitespace character
  that follows a terminal character and, \<^verbatim>\<open>\s+\<close> being greedy, takes the whole run of
  whitespace; the scan resumes behind the run, where the character before the position
  is whitespace, so the look-behind does not hold there.
\<close>

function split_scan :: "bool \<Rightarrow> ustring \<Rightarrow> ustring \<Rightarrow> ustring list" where
  "split_scan behind piece [] = [piece]"
| "split_scan behind piece (c # cs) =
     (if behind \<and> is_space c
      then piece # split_scan False [] (dropWhile is_space cs)
      else split_scan (is_terminal c) (piece @ [c]) cs)"
  by pat_completeness auto
termination
  by (relation "measure (\<lambda>(behind, piece, cs). length cs)")
     (auto simp: length_dropWhile_le less_Suc_eq_le)

definition re_split :: "ustring \<Rightarrow> ustring list" where
  "re_split text = split_scan False [] text"

text \<open>
  The \<^verbatim>\<open>for sentence in sentences\<close> loop of \<^verbatim>\<open>simple_segment\<close>, on the two variables
  \<^verbatim>\<open>chunks\<close> and \<^verbatim>\<open>current_chunk\<close>. Code point 32 is the space that follows each
  sentence in the buffer.
\<close>

fun segment_loop :: "int \<Rightarrow> ustring list \<Rightarrow> ustring list \<Rightarrow> ustring \<Rightarrow> ustring list \<times> ustring" where
  "segment_loop max_length [] chunks current_chunk = (chunks, current_chunk)"
| "segment_loop max_length (sentence # sentences) chunks current_chunk =
     (if int (length current_chunk) + int (length sentence) < max_length
      then segment_loop max_length sentences chunks (current_chunk @ sentence @ [32])
      else segment_loop max_length sentences
             (if current_chunk \<noteq> [] then chunks @ [strip current_chunk] else chunks)
             (sentence @ [32]))"

definition simple_segment :: "ustring \<Rightarrow> int \<Rightarrow> ustring list" where
  "simple_segment text max_length =
     (case segment_loop max_length (re_split text) [] [] of
        (chunks, current_chunk) \<Rightarrow>
          (let chunks' = (if current_chunk \<noteq> [] then chunks @ [strip current_chunk] else chunks)
           in if chunks' \<noteq> [] then chunks' else [text]))"

subsection \<open>The segmenter as the specification words it\<close>

text \<open>
  A second definition of the segmenter, following the specification's description
  (section 4.2) rather than the code, to be compared with \<open>simple_segment\<close>.

  Sentences: a sentence ends at a terminal character (\<^verbatim>\<open>.\<close>, \<^verbatim>\<open>!\<close>, \<^verbatim>\<open>?\<close>) that
  is followed by whitespace; the whitespace after it belongs to no sentence; what remains
  at the end of the text is the last sentence.
\<close>

definition whitespace_next :: "ustring \<Rightarrow> bool" where
  "whitespace_next cs = (case cs of [] \<Rightarrow> False | d # _ \<Rightarrow> is_space d)"

function spec_sentences :: "ustring \<Rightarrow> ustring list" where
  "spec_sentences [] = [[]]"
| "spec_sentences (c # cs) =
     (if is_terminal c \<and> whitespace_next cs
      then [c] # spec_sentences (dropWhile is_space cs)
      else (case spec_sentences cs of [] \<Rightarrow> [[c]] | s # ss \<Rightarrow> (c # s) # ss))"
  by pat_completeness auto
termination
  by (relation "measure length") (auto simp: length_dropWhile_le less_Suc_eq_le)

text \<open>
  The running buffer is a text. A sentence appended to the empty buffer is the new
  buffer; appended to a buffer that holds text it follows a single space.
\<close>

definition append_sentence :: "ustring \<Rightarrow> ustring \<Rightarrow> ustring" where
  "append_sentence buffer s = (if buffer = [] then s else buffer @ 32 # s)"

text \<open>
  Flushing a buffer completes a chunk: the buffer trimmed of surrounding whitespace. An
  empty buffer, and one that holds nothing but whitespace, completes no chunk: no chunk
  is ever empty.
\<close>

definition flush_buffer :: "ustring \<Rightarrow> ustring list" where
  "flush_buffer buffer = (if strip buffer = [] then [] else [strip buffer])"

text \<open>
  Greedy accumulation: when appending the next sentence would make the buffer length
  reach or exceed \<open>maxLength\<close>, the current buffer is flushed and a new buffer starts
  with that sentence; otherwise the sentence is appended. After the last sentence the
  remaining buffer is flushed.
\<close>

fun spec_accumulate :: "int \<Rightarrow> ustring \<Rightarrow> ustring list \<Rightarrow> ustring list" where
  "spec_accumulate maxLength buffer [] = flush_buffer buffer"
| "spec_accumulate maxLength buffer (s # ss) =
     (if maxLength \<le> int (length (append_sentence buffer s))
      then flush_buffer buffer @ spec_accumulate maxLength s ss
      else spec_accumulate maxLength (append_sentence buffer s) ss)"

text \<open>
  The edge case: when no chunk comes out of the sentences, the whole input is emitted as
  one single chunk.
\<close>

definition segment_spec :: "ustring \<Rightarrow> int \<Rightarrow> ustring list" where
  "segment_spec text maxLength =
     (let chunks = spec_accumulate maxLength [] (spec_sentences text)
      in if chunks = [] then [text] else chunks)"

section \<open>Values, dictionaries and exceptions\<close>

text \<open>
  The scalar values that occur in request metadata and in index rows. Floats are
  modelled as reals: the code only compares them, and NaN is left out.
\<close>

datatype pyval = VStr ustring | VInt int | VFloat real | VBool bool | VNone

text \<open>
  A Python \<^verbatim>\<open>dict\<close> with string keys is an association list in insertion order:
  \<open>map_of\<close> looks a key up, \<open>AList.update\<close> assigns (in place for a present key, at the
  end for a new one), \<open>AList.delete\<close> removes.
\<close>

type_synonym dict = "(ustring \<times> pyval) list"

text \<open>\<^verbatim>\<open>d.get(key, default)\<close>\<close>

definition dict_get :: "dict \<Rightarrow> ustring \<Rightarrow> pyval \<Rightarrow> pyval" where
  "dict_get d key dflt = (case map_of d key of None \<Rightarrow> dflt | Some v \<Rightarrow> v)"

text \<open>\<^verbatim>\<open>{**base, **extra}\<close>: the entries of \<open>extra\<close> are assigned in order.\<close>

definition dict_merge :: "dict \<Rightarrow> dict \<Rightarrow> dict" where
  "dict_merge base extra = fold (\<lambda>(k, v). AList.update k v) extra base"

text \<open>Truth value of a scalar, as \<^verbatim>\<open>not x\<close> and \<^verbatim>\<open>x and ...\<close> test it.\<close>

fun truthy :: "pyval \<Rightarrow> bool" where
  "truthy (VStr s) = (s \<noteq> [])"
| "truthy (VInt i) = (i \<noteq> 0)"
| "truthy (VFloat x) = (x \<noteq> 0)"
| "truthy (VBool b) = b"
| "truthy VNone = False"

text \<open>The number a value stands for in a comparison with a float, if it is one.\<close>

fun num_of :: "pyval \<Rightarrow> real option" where
  "num_of (VInt i) = Some (of_int i)"
| "num_of (VFloat x) = Some x"
| "num_of (VBool b) = Some (of_bool b)"
| "num_of (VStr s) = None"
| "num_of VNone = None"

text \<open>\<^verbatim>\<open>needle in haystack\<close> on strings: \<open>needle\<close> occurs as a contiguous substring.\<close>

fun contains_str :: "ustring \<Rightarrow> ustring \<Rightarrow> bool" where
  "contains_str needle [] = (needle = [])"
| "contains_str needle (c # cs) =
     (take (length needle) (c # cs) = needle \<or> contains_str needle cs)"

text \<open>\<^verbatim>\<open>str(i)\<close> for a non-negative integer: its decimal digits (code point 48 is \<^verbatim>\<open>0\<close>).\<close>

function str_nat :: "nat \<Rightarrow> ustring" where
  "str_nat n = (if n < 10 then [48 + n] else str_nat (n div 10) @ [48 + n mod 10])"
  by pat_completeness auto
termination
  by (relation "measure id") auto

text \<open>
  Exceptions. \<open>HTTPException\<close> carries the status code and the detail; a detail is a
  literal message or \<^verbatim>\<open>str(e)\<close> of a caught exception. \<open>UnicodeEncodeError\<close> is
  raised by \<^verbatim>\<open>str.encode()\<close>, \<open>LibraryError\<close> is whatever the embeddings object
  raises. All of them are subclasses of \<^verbatim>\<open>Exception\<close>, so
  \<^verbatim>\<open>except Exception\<close> catches every one.
\<close>

datatype exn =
    HTTPException nat detail
  | TypeError
  | KeyError ustring
  | UnicodeEncodeError
  | LibraryError string
and detail = Message string | StrOf exn

text \<open>
  \<^verbatim>\<open>s.encode()\<close>: the UTF-8 bytes of a text. A surrogate code point (U+D800 to U+DFFF)
  cannot be encoded and raises \<^verbatim>\<open>UnicodeEncodeError\<close>.
\<close>

definition is_surrogate :: "nat \<Rightarrow> bool" where
  "is_surrogate c \<longleftrightarrow> 55296 \<le> c \<and> c \<le> 57343"

definition utf8 :: "nat \<Rightarrow> nat list" where
  "utf8 c =
     (if c < 128 then [c]
      else if c < 2048 then [192 + c div 64, 128 + c mod 64]
      else if c < 65536 then [224 + c div 4096, 128 + (c div 64) mod 64, 128 + c mod 64]
      else [240 + c div 262144, 128 + (c div 4096) mod 64, 128 + (c div 64) mod 64,
            128 + c mod 64])"

fun encode :: "ustring \<Rightarrow> exn + nat list" where
  "encode [] = Inr []"
| "encode (c # cs) =
     (if is_surrogate c then Inl UnicodeEncodeError
      else case encode cs of Inl e \<Rightarrow> Inl e | Inr bs \<Rightarrow> Inr (utf8 c @ bs))"

section \<open>The service state and the embeddings object\<close>

text \<open>An entry of \<^verbatim>\<open>documents_store\<close>: title, number of chunks, request metadata.\<close>

record doc_info =
  title :: ustring
  chunks :: nat
  metadata :: "dict option"

text \<open>
  The embeddings object belongs to a library. Every call on it is recorded with its
  outcome: \<^verbatim>\<open>embeddings.index(rows)\<close> returns nothing or raises,
  \<^verbatim>\<open>embeddings.search(query, limit)\<close> returns rows or raises.
\<close>

datatype event =
    IndexCall "dict list" "exn option"
  | SearchCall ustring int "exn + dict list"

text \<open>
  The module's global state: \<^verbatim>\<open>documents_store\<close> (a dict, in insertion order), the
  flag \<^verbatim>\<open>_embeddings_indexed\<close>, and the calls made on the embeddings object so far.
\<close>

record state =
  documents_store :: "(ustring \<times> doc_info) list"
  embeddings_indexed :: bool
  calls :: "event list"

text \<open>
  What the code takes from outside: the digest \<^verbatim>\<open>hashlib.md5(bytes).hexdigest()\<close> of
  a byte string, and the behaviour of the embeddings object, which decides the outcome of
  a call from the calls made before it.
\<close>

record world =
  md5_hexdigest :: "nat list \<Rightarrow> ustring"
  index_outcome :: "event list \<Rightarrow> dict list \<Rightarrow> exn option"
  search_outcome :: "event list \<Rightarrow> ustring \<Rightarrow> int \<Rightarrow> exn + dict list"

definition embeddings_index :: "world \<Rightarrow> state \<Rightarrow> dict list \<Rightarrow> exn option \<times> state" where
  "embeddings_index W st rows =
     (let outcome = index_outcome W (calls st) rows
      in (outcome, st\<lparr>calls := calls st @ [IndexCall rows outcome]\<rparr>))"

definition embeddings_search :: "world \<Rightarrow> state \<Rightarrow> ustring \<Rightarrow> int \<Rightarrow> (exn + dict list) \<times> state" where
  "embeddings_search W st q n =
     (let outcome = search_outcome W (calls st) q n
      in (outcome, st\<lparr>calls := calls st @ [SearchCall q n outcome]\<rparr>))"

text \<open>The rows of the successful \<^verbatim>\<open>embeddings.index\<close> calls of a log, oldest first.\<close>

fun commits :: "event list \<Rightarrow> dict list list" where
  "commits [] = []"
| "commits (IndexCall rows None # es) = rows # commits es"
| "commits (IndexCall rows (Some e) # es) = commits es"
| "commits (SearchCall q n outcome # es) = commits es"

definition last_commit :: "event list \<Rightarrow> dict list option" where
  "last_commit evs = (case commits evs of [] \<Rightarrow> None | c # cs \<Rightarrow> Some (last (c # cs)))"

text \<open>The two read-back queries (code point 39 is the single quote).\<close>

definition select_all :: ustring where
  "select_all = ustr ''SELECT * FROM sections''"

definition select_except :: "ustring \<Rightarrow> ustring" where
  "select_except doc_id = ustr ''SELECT * FROM sections WHERE doc_id != '' @ [39] @ doc_id @ [39]"

section \<open>\<^verbatim>\<open>process_text\<close>\<close>

record document_request =
  req_content :: ustring
  req_title :: ustring
  req_metadata :: "dict option"

record process_response =
  resp_doc_id :: ustring
  resp_chunks :: nat
  resp_title :: ustring
  resp_status :: string

text \<open>One element of \<^verbatim>\<open>documents\<close> (code point 95 is the underscore).\<close>

definition make_document :: "ustring \<Rightarrow> ustring \<Rightarrow> dict \<Rightarrow> nat \<times> ustring \<Rightarrow> dict" where
  "make_document doc_id ttl md ic =
     dict_merge
       [(ustr ''id'', VStr (doc_id @ [95] @ str_nat (fst ic))),
        (ustr ''text'', VStr (snd ic)),
        (ustr ''doc_id'', VStr doc_id),
        (ustr ''title'', VStr ttl),
        (ustr ''chunk_index'', VInt (int (fst ic)))]
       md"

text \<open>
  The loop over \<^verbatim>\<open>enumerate(chunks)\<close>. With \<^verbatim>\<open>request.metadata\<close> being \<^verbatim>\<open>None\<close> the
  first iteration raises \<^verbatim>\<open>TypeError\<close> at \<^verbatim>\<open>**request.metadata\<close>.
\<close>

definition build_documents :: "ustring \<Rightarrow> ustring \<Rightarrow> dict option \<Rightarrow> ustring list \<Rightarrow> exn + dict list" where
  "build_documents doc_id ttl md chs =
     (if chs = [] then Inr []
      else case md of
             None \<Rightarrow> Inl TypeError
           | Some m \<Rightarrow> Inr (map (make_document doc_id ttl m) (enumerate 0 chs)))"

text \<open>The inner \<^verbatim>\<open>try\<close> block of the append path: read back, extend, index.\<close>

definition append_to_index :: "world \<Rightarrow> state \<Rightarrow> dict list \<Rightarrow> exn option \<times> state" where
  "append_to_index W st documents =
     (case embeddings_search W st select_all 10000 of
        (Inl e, st') \<Rightarrow> (Some e, st')
      | (Inr existing, st') \<Rightarrow> embeddings_index W st' (existing @ documents))"

text \<open>
  \<^verbatim>\<open>embeddings.index(documents); _embeddings_indexed = True\<close>, which is both the
  first-time branch and the \<^verbatim>\<open>except\<close> branch of the append path.
\<close>

definition index_fresh :: "world \<Rightarrow> state \<Rightarrow> dict list \<Rightarrow> exn option \<times> state" where
  "index_fresh W st documents =
     (case embeddings_index W st documents of
        (Some e, st') \<Rightarrow> (Some e, st')
      | (None, st') \<Rightarrow> (None, st'\<lparr>embeddings_indexed := True\<rparr>))"

text \<open>The statement \<^verbatim>\<open>if not _embeddings_indexed: ... else: try: ... except Exception: ...\<close>\<close>

definition index_documents :: "world \<Rightarrow> state \<Rightarrow> dict list \<Rightarrow> exn option \<times> state" where
  "index_documents W st documents =
     (if \<not> embeddings_indexed st then index_fresh W st documents
      else case append_to_index W st documents of
             (None, st') \<Rightarrow> (None, st')
           | (Some e, st') \<Rightarrow> index_fresh W st' documents)"

text \<open>
  The part of \<^verbatim>\<open>process_text\<close> behind the document id: segment, build the documents,
  write the registry entry, index, respond.
\<close>

definition process_chunks :: "world \<Rightarrow> state \<Rightarrow> document_request \<Rightarrow> ustring \<Rightarrow> (exn + process_response) \<times> state" where
  "process_chunks W st request doc_id =
     (let chs = simple_segment (req_content request) 500
      in case build_documents doc_id (req_title request) (req_metadata request) chs of
           Inl e \<Rightarrow> (Inl e, st)
         | Inr documents \<Rightarrow>
             (let st1 = st\<lparr>documents_store :=
                          AList.update doc_id
                            \<lparr>title = req_title request, chunks = length chs,
                             metadata = req_metadata request\<rparr>
                            (documents_store st)\<rparr>
              in case index_documents W st1 documents of
                   (Some e, st2) \<Rightarrow> (Inl e, st2)
                 | (None, st2) \<Rightarrow>
                     (Inr \<lparr>resp_doc_id = doc_id, resp_chunks = length chs,
                           resp_title = req_title request, resp_status = ''success''\<rparr>, st2)))"

text \<open>
  The body of the outer \<^verbatim>\<open>try\<close> of \<^verbatim>\<open>process_text\<close>. Its first statement,
  \<^verbatim>\<open>doc_id = hashlib.md5(request.content.encode()).hexdigest()\<close>, raises when the
  content cannot be encoded.
\<close>

definition process_text_body :: "world \<Rightarrow> state \<Rightarrow> document_request \<Rightarrow> (exn + process_response) \<times> state" where
  "process_text_body W st request =
     (case encode (req_content request) of
        Inl e \<Rightarrow> (Inl e, st)
      | Inr bytes \<Rightarrow> process_chunks W st request (md5_hexdigest W bytes))"

text \<open>\<^verbatim>\<open>except Exception as e: raise HTTPException(status_code=500, detail=str(e))\<close>\<close>

definition to_500 :: "(exn + 'a) \<times> state \<Rightarrow> (exn + 'a) \<times> state" where
  "to_500 r = (case r of (Inl e, st) \<Rightarrow> (Inl (HTTPException 500 (StrOf e)), st) | (Inr v, st) \<Rightarrow> (Inr v, st))"

definition process_text :: "world \<Rightarrow> state \<Rightarrow> document_request \<Rightarrow> (exn + process_response) \<times> state" where
  "process_text W st request = to_500 (process_text_body W st request)"

section \<open>\<^verbatim>\<open>search\<close>\<close>

record search_request =
  req_query :: ustring
  req_limit :: int
  req_threshold :: real

record search_hit =
  hit_text :: pyval
  hit_score :: pyval
  hit_doc_id :: pyval
  hit_title :: pyval
  hit_chunk_index :: pyval

record search_response =
  s_results :: "search_hit list"
  s_message :: "string option"
  s_query :: "ustring option"

text \<open>
  The loop over \<^verbatim>\<open>documents_store.items()\<close> with its \<^verbatim>\<open>break\<close>. The test
  \<^verbatim>\<open>stored_doc_id in result.get("id", "")\<close> raises \<^verbatim>\<open>TypeError\<close> when the value under
  \<^verbatim>\<open>"id"\<close> is not a string.
\<close>

fun lookup_doc_id :: "(ustring \<times> doc_info) list \<Rightarrow> pyval \<Rightarrow> pyval \<Rightarrow> exn + pyval" where
  "lookup_doc_id [] idv doc_id = Inr doc_id"
| "lookup_doc_id ((stored_doc_id, info) # rest) idv doc_id =
     (case idv of
        VStr s \<Rightarrow> (if contains_str stored_doc_id s then Inr (VStr stored_doc_id)
                   else lookup_doc_id rest idv doc_id)
      | _ \<Rightarrow> Inl TypeError)"

text \<open>\<^verbatim>\<open>doc_id in documents_store\<close> and \<^verbatim>\<open>documents_store[doc_id]\<close> for a value \<open>doc_id\<close>.\<close>

definition store_entry :: "(ustring \<times> doc_info) list \<Rightarrow> pyval \<Rightarrow> doc_info option" where
  "store_entry store v = (case v of VStr s \<Rightarrow> map_of store s | _ \<Rightarrow> None)"

text \<open>The body of \<^verbatim>\<open>if result["score"] >= request.threshold:\<close> for one result.\<close>

definition format_result :: "(ustring \<times> doc_info) list \<Rightarrow> dict \<Rightarrow> pyval \<Rightarrow> exn + search_hit" where
  "format_result store result score =
     (let doc_id0 = dict_get result (ustr ''doc_id'') (VStr [])
      in case (if \<not> truthy doc_id0 \<and> map_of result (ustr ''text'') \<noteq> None
               then lookup_doc_id store (dict_get result (ustr ''id'') (VStr [])) doc_id0
               else Inr doc_id0) of
           Inl e \<Rightarrow> Inl e
         | Inr doc_id \<Rightarrow>
             (let title0 = dict_get result (ustr ''title'') (VStr []);
                  ttl = (if \<not> truthy title0 \<and> truthy doc_id
                         then (case store_entry store doc_id of
                                 Some info \<Rightarrow> VStr (title info)
                               | None \<Rightarrow> title0)
                         else title0)
              in Inr \<lparr>hit_text = dict_get result (ustr ''text'') (VStr []),
                      hit_score = score,
                      hit_doc_id = doc_id,
                      hit_title = ttl,
                      hit_chunk_index = dict_get result (ustr ''chunk_index'') (VInt 0)\<rparr>))"

text \<open>
  The loop \<^verbatim>\<open>for result in results\<close>. \<^verbatim>\<open>result["score"]\<close> raises \<^verbatim>\<open>KeyError\<close> when
  the key is missing, and the comparison with the threshold raises \<^verbatim>\<open>TypeError\<close> when
  the score is not a number.
\<close>

fun format_results :: "(ustring \<times> doc_info) list \<Rightarrow> real \<Rightarrow> dict list \<Rightarrow> exn + search_hit list" where
  "format_results store threshold [] = Inr []"
| "format_results store threshold (result # results) =
     (case map_of result (ustr ''score'') of
        None \<Rightarrow> Inl (KeyError (ustr ''score''))
      | Some score \<Rightarrow>
          (case num_of score of
             None \<Rightarrow> Inl TypeError
           | Some x \<Rightarrow>
               if threshold \<le> x
               then (case format_result store result score of
                       Inl e \<Rightarrow> Inl e
                     | Inr hit \<Rightarrow>
                         (case format_results store threshold results of
                            Inl e \<Rightarrow> Inl e
                          | Inr hits \<Rightarrow> Inr (hit # hits)))
               else format_results store threshold results))"

definition search_body :: "world \<Rightarrow> state \<Rightarrow> search_request \<Rightarrow> (exn + search_response) \<times> state" where
  "search_body W st request =
     (if \<not> embeddings_indexed st
      then (Inr \<lparr>s_results = [], s_message = Some ''No documents indexed'', s_query = None\<rparr>, st)
      else case embeddings_search W st (req_query request) (req_limit request) of
             (Inl e, st') \<Rightarrow> (Inl e, st')
           | (Inr results, st') \<Rightarrow>
               (case format_results (documents_store st') (req_threshold request) results of
                  Inl e \<Rightarrow> (Inl e, st')
                | Inr hits \<Rightarrow>
                    (Inr \<lparr>s_results = hits, s_message = None,
                          s_query = Some (req_query request)\<rparr>, st')))"

definition search :: "world \<Rightarrow> state \<Rightarrow> search_request \<Rightarrow> (exn + search_response) \<times> state" where
  "search W st request = to_500 (search_body W st request)"

section \<open>\<^verbatim>\<open>delete_document\<close>\<close>

record delete_response =
  del_message :: string
  del_doc_id :: ustring

text \<open>The inner \<^verbatim>\<open>try\<close> block: read back the rows of the other documents, index them.\<close>

definition reindex_without :: "world \<Rightarrow> state \<Rightarrow> ustring \<Rightarrow> exn option \<times> state" where
  "reindex_without W st doc_id =
     (case embeddings_search W st (select_except doc_id) 10000 of
        (Inl e, st') \<Rightarrow> (Some e, st')
      | (Inr remaining, st') \<Rightarrow> embeddings_index W st' remaining)"

definition delete_document_body :: "world \<Rightarrow> state \<Rightarrow> ustring \<Rightarrow> (exn + delete_response) \<times> state" where
  "delete_document_body W st doc_id =
     (if map_of (documents_store st) doc_id = None
      then (Inl (HTTPException 404 (Message ''Document not found'')), st)
      else
        (let st1 = st\<lparr>documents_store := AList.delete doc_id (documents_store st)\<rparr>;
             st2 = (if embeddings_indexed st1
                    then (case reindex_without W st1 doc_id of
                            (None, st') \<Rightarrow> st'
                          | (Some e, st') \<Rightarrow> st'\<lparr>embeddings_indexed := False\<rparr>)
                    else st1)
         in (Inr \<lparr>del_message = ''Document deleted'', del_doc_id = doc_id\<rparr>, st2)))"

definition delete_document :: "world \<Rightarrow> state \<Rightarrow> ustring \<Rightarrow> (exn + delete_response) \<times> state" where
  "delete_document W st doc_id = to_500 (delete_document_body W st doc_id)"

section \<open>Observations used in the statements\<close>

text \<open>
  The documents that \<^verbatim>\<open>process_text\<close> builds for a request whose document id is
  \<open>doc_id\<close> and whose metadata is the dictionary \<open>md\<close>, and the entry it writes to
  \<^verbatim>\<open>documents_store\<close>.
\<close>

definition request_documents :: "ustring \<Rightarrow> document_request \<Rightarrow> dict \<Rightarrow> dict list" where
  "request_documents doc_id request md =
     map (make_document doc_id (req_title request) md)
       (enumerate 0 (simple_segment (req_content request) 500))"

definition request_info :: "document_request \<Rightarrow> doc_info" where
  "request_info request =
     \<lparr>title = req_title request, chunks = length (simple_segment (req_content request) 500),
      metadata = req_metadata request\<rparr>"

text \<open>
  The append path goes through: in state Indexed the read-back returns the rows
  \<open>existing\<close> and the commit of these rows followed by the new documents succeeds.
\<close>

definition append_succeeds :: "world \<Rightarrow> state \<Rightarrow> dict list \<Rightarrow> dict list \<Rightarrow> bool" where
  "append_succeeds W st documents existing \<longleftrightarrow>
     embeddings_indexed st \<and>
     search_outcome W (calls st) select_all 10000 = Inr existing \<and>
     index_outcome W (calls st @ [SearchCall select_all 10000 (Inr existing)])
       (existing @ documents) = None"

text \<open>The number of rows that carry a given document id.\<close>

definition count_doc_chunks :: "ustring \<Rightarrow> dict list \<Rightarrow> nat" where
  "count_doc_chunks doc_id rows =
     length (filter (\<lambda>r. map_of r (ustr ''doc_id'') = Some (VStr doc_id)) rows)"

text \<open>The value under \<^verbatim>\<open>"id"\<close> of each row of a list.\<close>

definition row_ids :: "dict list \<Rightarrow> pyval option list" where
  "row_ids rows = map (\<lambda>r. map_of r (ustr ''id'')) rows"

text \<open>
  The numeric score of a raw search result, whether it passes a threshold, and whether
  the substring test on its \<^verbatim>\<open>"id"\<close> can be evaluated (the value is absent or a
  string).
\<close>

definition row_score :: "dict \<Rightarrow> real option" where
  "row_score r = (case map_of r (ustr ''score'') of None \<Rightarrow> None | Some v \<Rightarrow> num_of v)"

definition passes :: "real \<Rightarrow> dict \<Rightarrow> bool" where
  "passes threshold r = (case row_score r of None \<Rightarrow> False | Some x \<Rightarrow> threshold \<le> x)"

definition id_is_text :: "dict \<Rightarrow> bool" where
  "id_is_text r =
     (case map_of r (ustr ''id'') of None \<Rightarrow> True | Some (VStr s) \<Rightarrow> True | Some _ \<Rightarrow> False)"

text \<open>A returned hit is the formatted form of a raw result, with the raw score.\<close>

definition formatted_as :: "(ustring \<times> doc_info) list \<Rightarrow> dict \<Rightarrow> search_hit \<Rightarrow> bool" where
  "formatted_as store r hit =
     (case map_of r (ustr ''score'') of
        None \<Rightarrow> False
      | Some v \<Rightarrow> format_result store r v = Inr hit \<and> hit_score hit = v)"

section \<open>Sample inputs\<close>

text \<open>
  Concrete requests, states and behaviours of the embeddings object, on which the
  theorems below are instantiated. \<open>sample_digest\<close> agrees with MD5 on the bytes of the
  two sample contents, which are ASCII texts and so their own UTF-8 encodings.
\<close>

definition sample_content :: ustring where
  "sample_content = ustr ''Cats are mammals. Dogs are mammals too.''"

definition sample_id :: ustring where
  "sample_id = ustr ''e034881a56d7b2e5df382be723161404''"

definition second_content :: ustring where
  "second_content = ustr ''Hi.''"

definition second_id :: ustring where
  "second_id = ustr ''7b00b6d52a564b31999eb3de9ce0980b''"

definition sample_digest :: "nat list \<Rightarrow> ustring" where
  "sample_digest b =
     (if b = sample_content then sample_id
      else if b = second_content then second_id
      else ustr ''d41d8cd98f00b204e9800998ecf8427e'')"

definition sample_request :: document_request where
  "sample_request =
     \<lparr>req_content = sample_content, req_title = ustr ''animals'', req_metadata = Some []\<rparr>"

definition sample_documents :: "dict list" where
  "sample_documents =
     [[(ustr ''id'', VStr (ustr ''e034881a56d7b2e5df382be723161404_0'')),
       (ustr ''text'', VStr sample_content),
       (ustr ''doc_id'', VStr sample_id),
       (ustr ''title'', VStr (ustr ''animals'')),
       (ustr ''chunk_index'', VInt 0)]]"

definition second_request :: document_request where
  "second_request =
     \<lparr>req_content = second_content, req_title = ustr ''greeting'',
      req_metadata = Some [(ustr ''lang'', VStr (ustr ''en''))]\<rparr>"

definition second_documents :: "dict list" where
  "second_documents =
     [[(ustr ''id'', VStr (ustr ''7b00b6d52a564b31999eb3de9ce0980b_0'')),
       (ustr ''text'', VStr second_content),
       (ustr ''doc_id'', VStr second_id),
       (ustr ''title'', VStr (ustr ''greeting'')),
       (ustr ''chunk_index'', VInt 0),
       (ustr ''lang'', VStr (ustr ''en''))]]"

definition empty_state :: state where
  "empty_state = \<lparr>documents_store = [], embeddings_indexed = False, calls = []\<rparr>"

text \<open>The state after the sample request has been processed on the empty state.\<close>

definition indexed_state :: state where
  "indexed_state =
     \<lparr>documents_store = [(sample_id, \<lparr>title = ustr ''animals'', chunks = 1, metadata = Some []\<rparr>)],
      embeddings_indexed = True,
      calls = [IndexCall sample_documents None]\<rparr>"

text \<open>An index that never fails and whose read-back returns the rows committed last.\<close>

definition readback_world :: world where
  "readback_world =
     \<lparr>md5_hexdigest = sample_digest,
      index_outcome = (\<lambda>evs rows. None),
      search_outcome = (\<lambda>evs q n. case last_commit evs of
                                      None \<Rightarrow> Inr []
                                    | Some rows \<Rightarrow> Inr (take (nat n) rows))\<rparr>"

text \<open>An index whose every query raises, while commits succeed.\<close>

definition unreachable_world :: world where
  "unreachable_world =
     \<lparr>md5_hexdigest = sample_digest,
      index_outcome = (\<lambda>evs rows. None),
      search_outcome = (\<lambda>evs q n. Inl (LibraryError ''index unreachable''))\<rparr>"

text \<open>An index whose every commit raises.\<close>

definition failing_index_world :: world where
  "failing_index_world =
     \<lparr>md5_hexdigest = sample_digest,
      index_outcome = (\<lambda>evs rows. Some (LibraryError ''commit failed'')),
      search_outcome = (\<lambda>evs q n. Inr [])\<rparr>"

text \<open>An index whose every query and every commit raises.\<close>

definition dead_world :: world where
  "dead_world =
     \<lparr>md5_hexdigest = sample_digest,
      index_outcome = (\<lambda>evs rows. Some (LibraryError ''commit failed'')),
      search_outcome = (\<lambda>evs q n. Inl (LibraryError ''index unreachable''))\<rparr>"

text \<open>
  Raw results as the index returns them with stored content: id, text and score. The
  similarity of the second one is negative.
\<close>

definition near_row :: dict where
  "near_row =
     [(ustr ''id'', VStr (ustr ''e034881a56d7b2e5df382be723161404_0'')),
      (ustr ''text'', VStr sample_content),
      (ustr ''score'', VFloat (5 / 8))]"

definition far_row :: dict where
  "far_row =
     [(ustr ''id'', VStr (ustr ''7b00b6d52a564b31999eb3de9ce0980b_0'')),
      (ustr ''text'', VStr second_content),
      (ustr ''score'', VFloat (- 1 / 8))]"

definition scored_world :: world where
  "scored_world =
     \<lparr>md5_hexdigest = sample_digest,
      index_outcome = (\<lambda>evs rows. None),
      search_outcome = (\<lambda>evs q n. Inr (take (nat n) [near_row, far_row]))\<rparr>"

definition near_world :: world where
  "near_world =
     \<lparr>md5_hexdigest = sample_digest,
      index_outcome = (\<lambda>evs rows. None),
      search_outcome = (\<lambda>evs q n. Inr (take (nat n) [near_row]))\<rparr>"

definition sample_search :: search_request where
  "sample_search = \<lparr>req_query = ustr ''mammals'', req_limit = 5, req_threshold = 0\<rparr>"

definition near_hit :: search_hit where
  "near_hit =
     \<lparr>hit_text = VStr sample_content, hit_score = VFloat (5 / 8), hit_doc_id = VStr sample_id,
      hit_title = VStr (ustr ''animals''), hit_chunk_index = VInt 0\<rparr>"

text \<open>The response to the sample request.\<close>

definition sample_response :: process_response where
  "sample_response =
     \<lparr>resp_doc_id = sample_id, resp_chunks = 1, resp_title = ustr ''animals'',
      resp_status = ''success''\<rparr>"

text \<open>The state after the sample request has been processed a second time.\<close>

definition reindexed_state :: state where
  "reindexed_state =
     \<lparr>documents_store = [(sample_id, \<lparr>title = ustr ''animals'', chunks = 1, metadata = Some []\<rparr>)],
      embeddings_indexed = True,
      calls = [IndexCall sample_documents None,
               SearchCall select_all 10000 (Inr sample_documents),
               IndexCall (sample_documents @ sample_documents) None]\<rparr>"

text \<open>The state after the sample request has failed at its first commit.\<close>

definition failed_state :: state where
  "failed_state =
     \<lparr>documents_store = [(sample_id, \<lparr>title = ustr ''animals'', chunks = 1, metadata = Some []\<rparr>)],
      embeddings_indexed = False,
      calls = [IndexCall sample_documents (Some (LibraryError ''commit failed''))]\<rparr>"

text \<open>
  The response to the second request, and the state after it has been processed on the
  indexed state by an index that reads back what was committed.
\<close>

definition second_response :: process_response where
  "second_response =
     \<lparr>resp_doc_id = second_id, resp_chunks = 1, resp_title = ustr ''greeting'',
      resp_status = ''success''\<rparr>"

definition appended_state :: state where
  "appended_state =
     \<lparr>documents_store =
        [(sample_id, \<lparr>title = ustr ''animals'', chunks = 1, metadata = Some []\<rparr>),
         (second_id, \<lparr>title = ustr ''greeting'', chunks = 1,
                      metadata = Some [(ustr ''lang'', VStr (ustr ''en''))]\<rparr>)],
      embeddings_indexed = True,
      calls = [IndexCall sample_documents None,
               SearchCall select_all 10000 (Inr sample_documents),
               IndexCall (sample_documents @ second_documents) None]\<rparr>"

declare str_nat.simps [simp del]

section \<open>Properties of the segmenter\<close>

lemma spec_sentences_nonempty: "spec_sentences cs \<noteq> []"
  by (induction cs rule: spec_sentences.induct) (auto split: list.splits)

text \<open>Putting a piece in front of the first sentence.\<close>

lemma split_scan_spec:
  "split_scan behind piece cs =
     (if behind \<and> whitespace_next cs
      then piece # spec_sentences (dropWhile is_space cs)
      else (piece @ hd (spec_sentences cs)) # tl (spec_sentences cs))"
proof (induction behind piece cs rule: split_scan.induct)
  case (1 behind piece)
  show ?case by (simp add: whitespace_next_def)
next
  case (2 behind piece c cs)
  show ?case
  proof (cases "behind \<and> is_space c")
    case True
    have "spec_sentences (dropWhile is_space cs) \<noteq> []"
      by (rule spec_sentences_nonempty)
    then show ?thesis using True 2(1)
      by (simp add: whitespace_next_def)
  next
    case False
    obtain s ss where s: "spec_sentences cs = s # ss"
      using spec_sentences_nonempty by (cases "spec_sentences cs") auto
    have nb: "(behind \<and> is_space c) = False"
      using False by simp
    have "split_scan behind piece (c # cs) = split_scan (is_terminal c) (piece @ [c]) cs"
      by (simp only: split_scan.simps nb if_False)
    also have "\<dots> = (piece @ hd (spec_sentences (c # cs))) # tl (spec_sentences (c # cs))"
      using 2(2)[OF False] s by simp
    finally show ?thesis
      by (simp only: whitespace_next_def list.case nb if_False)
  qed
qed

lemma re_split_spec: "re_split text = spec_sentences text"
proof -
  obtain s ss where s: "spec_sentences text = s # ss"
    using spec_sentences_nonempty by (cases "spec_sentences text") auto
  show ?thesis by (simp add: re_split_def split_scan_spec s)
qed

lemma strip_snoc_space: "strip (s @ [32]) = strip s"
proof (cases "\<forall>c \<in> set s. is_space c")
  case True
  have sp: "is_space 32" by (simp add: is_space_def)
  from True have a: "dropWhile is_space s = []"
    by (simp only: dropWhile_eq_Nil_conv)
  from True have b: "dropWhile is_space (s @ [32]) = dropWhile is_space [32]"
    by (intro dropWhile_append2) simp
  from sp have c: "dropWhile is_space [32] = []"
    by simp
  show ?thesis unfolding strip_def a b c by simp
next
  case False
  have sp: "is_space 32" by (simp add: is_space_def)
  from False have "dropWhile is_space (s @ [32]) = dropWhile is_space s @ [32]"
    by (auto simp: dropWhile_append1)
  then show ?thesis using sp by (simp add: strip_def)
qed

lemma strip_Nil_iff: "strip s = [] \<longleftrightarrow> (\<forall>c \<in> set s. is_space c)"
proof
  assume "strip s = []"
  then have "dropWhile is_space (rev (dropWhile is_space s)) = []"
    by (simp add: strip_def)
  then have "\<forall>c \<in> set (dropWhile is_space s). is_space c"
    by (simp only: dropWhile_eq_Nil_conv set_rev)
  then have "dropWhile is_space s = []"
    by (metis dropWhile_eq_Nil_conv hd_dropWhile list.set_sel(1))
  then show "\<forall>c \<in> set s. is_space c"
    by (simp only: dropWhile_eq_Nil_conv)
next
  assume "\<forall>c \<in> set s. is_space c"
  then have d: "dropWhile is_space s = []"
    by (simp only: dropWhile_eq_Nil_conv)
  show "strip s = []"
    unfolding strip_def d by simp
qed

text \<open>The loop never leaves the buffer empty once a sentence has been seen.\<close>

lemma segment_loop_buffer:
  "segment_loop m ss acc cur = (acc', cur') \<Longrightarrow> ss \<noteq> [] \<or> cur \<noteq> [] \<Longrightarrow> cur' \<noteq> []"
proof (induction ss arbitrary: acc cur)
  case Nil
  then show ?case by simp
next
  case (Cons s ss)
  show ?case
  proof (cases "int (length cur) + int (length s) < m")
    case True
    with Cons.prems have "segment_loop m ss acc (cur @ s @ [32]) = (acc', cur')" by simp
    from Cons.IH[OF this] show ?thesis by simp
  next
    case False
    with Cons.prems have "segment_loop m ss (if cur \<noteq> [] then acc @ [strip cur] else acc)
        (s @ [32]) = (acc', cur')" by simp
    from Cons.IH[OF this] show ?thesis by simp
  qed
qed

text \<open>\<^verbatim>\<open>simple_segment\<close> never returns the empty list.\<close>

lemma simple_segment_nonempty: "simple_segment c m \<noteq> []"
  by (auto simp: simple_segment_def Let_def split: prod.splits)

text \<open>Chunks once completed stay in the list.\<close>

lemma segment_loop_keeps:
  "segment_loop m ss acc cur = (acc', cur') \<Longrightarrow> set acc \<subseteq> set acc'"
proof (induction ss arbitrary: acc cur)
  case Nil
  then show ?case by simp
next
  case (Cons s ss)
  show ?case
  proof (cases "int (length cur) + int (length s) < m")
    case True
    with Cons.prems have "segment_loop m ss acc (cur @ s @ [32]) = (acc', cur')" by simp
    from Cons.IH[OF this] show ?thesis .
  next
    case False
    with Cons.prems have "segment_loop m ss (if cur \<noteq> [] then acc @ [strip cur] else acc)
        (s @ [32]) = (acc', cur')" by simp
    from Cons.IH[OF this] show ?thesis by (auto split: if_splits)
  qed
qed

text \<open>
  A sentence that alone reaches the bound opens a buffer that nothing else joins: it is
  completed as a chunk, or it is the buffer left at the end.
\<close>

lemma segment_loop_long_buffer:
  assumes "m \<le> int (length s)"
    and "segment_loop m ss acc (s @ [32]) = (acc', cur')"
  shows "strip s \<in> set acc' \<or> cur' = s @ [32]"
proof (cases ss)
  case Nil
  with assms show ?thesis by simp
next
  case (Cons t ts)
  with assms have "segment_loop m ts (acc @ [strip (s @ [32])]) (t @ [32]) = (acc', cur')"
    by simp
  from segment_loop_keeps[OF this] show ?thesis
    by (simp add: strip_snoc_space)
qed

lemma segment_loop_long:
  assumes "s \<in> set ss" and "m \<le> int (length s)"
    and "segment_loop m ss acc cur = (acc', cur')"
  shows "strip s \<in> set acc' \<or> cur' = s @ [32]"
  using assms
proof (induction ss arbitrary: acc cur)
  case Nil
  then show ?case by simp
next
  case (Cons t ts)
  show ?case
  proof (cases "s = t")
    case True
    with Cons.prems(2) have nf: "\<not> int (length cur) + int (length t) < m" by simp
    with Cons.prems(3) True have "segment_loop m ts
        (if cur \<noteq> [] then acc @ [strip cur] else acc) (s @ [32]) = (acc', cur')" by simp
    from segment_loop_long_buffer[OF Cons.prems(2) this] show ?thesis .
  next
    case False
    with Cons.prems(1) have in_ts: "s \<in> set ts" by simp
    show ?thesis
    proof (cases "int (length cur) + int (length t) < m")
      case True
      with Cons.prems(3) have "segment_loop m ts acc (cur @ t @ [32]) = (acc', cur')" by simp
      from Cons.IH[OF in_ts Cons.prems(2) this] show ?thesis .
    next
      case False
      with Cons.prems(3) have "segment_loop m ts
          (if cur \<noteq> [] then acc @ [strip cur] else acc) (t @ [32]) = (acc', cur')" by simp
      from Cons.IH[OF in_ts Cons.prems(2) this] show ?thesis .
    qed
  qed
qed

lemma simple_segment_long_sentence:
  assumes "s \<in> set (spec_sentences c)" and "m \<le> int (length s)"
  shows "strip s \<in> set (simple_segment c m)"
proof -
  obtain acc cur where l: "segment_loop m (re_split c) [] [] = (acc, cur)"
    by (cases "segment_loop m (re_split c) [] []") auto
  from assms(1) have "s \<in> set (re_split c)" by (simp add: re_split_spec)
  from segment_loop_long[OF this assms(2) l] have "strip s \<in> set acc \<or> cur = s @ [32]" .
  with l show ?thesis
    by (auto simp: simple_segment_def Let_def strip_snoc_space)
qed

text \<open>Only the last sentence of a text can be empty.\<close>

lemma spec_sentences_butlast: "\<forall>s \<in> set (butlast (spec_sentences cs)). s \<noteq> []"
proof (induction cs rule: spec_sentences.induct)
  case 1
  show ?case by simp
next
  case (2 c cs)
  show ?case
  proof (cases "is_terminal c \<and> whitespace_next cs")
    case True
    with 2(1) spec_sentences_nonempty[of "dropWhile is_space cs"] show ?thesis by simp
  next
    case False
    obtain s ss where s: "spec_sentences cs = s # ss"
      using spec_sentences_nonempty by (cases "spec_sentences cs") auto
    have nb: "(is_terminal c \<and> whitespace_next cs) = False" using False by simp
    have e: "spec_sentences (c # cs) = (c # s) # ss"
      by (simp only: spec_sentences.simps nb if_False s list.case)
    from 2(2)[OF False] s show ?thesis
      unfolding e by (auto split: if_splits)
  qed
qed

text \<open>
  The code's buffer is the buffer text with one more space at its end. The two agree on
  lengths as long as no empty sentence is followed by another sentence.
\<close>

lemma segment_loop_chunks:
  assumes "segment_loop m ss acc cur = (acc', cur')"
    and "(cur = [] \<and> buf = []) \<or> (cur = buf @ [32] \<and> (buf \<noteq> [] \<or> ss = []))"
    and "\<forall>s \<in> set (butlast ss). s \<noteq> []"
  shows "filter (\<lambda>c. c \<noteq> []) (acc' @ (if cur' \<noteq> [] then [strip cur'] else [])) =
           filter (\<lambda>c. c \<noteq> []) acc @ spec_accumulate m buf ss"
  using assms
proof (induction ss arbitrary: acc cur buf)
  case Nil
  from Nil.prems(1) have e: "acc' = acc" "cur' = cur" by simp_all
  from Nil.prems(2) show ?case
  proof
    assume "cur = [] \<and> buf = []"
    then show ?thesis by (simp add: e flush_buffer_def strip_def)
  next
    assume "cur = buf @ [32] \<and> (buf \<noteq> [] \<or> [] = ([] :: ustring list))"
    then show ?thesis
      by (simp add: e strip_snoc_space flush_buffer_def)
  qed
next
  case (Cons s ss)
  from Cons.prems(2) have good: "(cur = [] \<and> buf = []) \<or> (cur = buf @ [32] \<and> buf \<noteq> [])"
    by simp
  have bl: "butlast (s # ss) = (if ss = [] then [] else s # butlast ss)"
    by simp
  from Cons.prems(3) have s_ne: "s \<noteq> [] \<or> ss = []"
    unfolding bl by (cases "ss = []") simp_all
  from Cons.prems(3) have rest: "\<forall>x \<in> set (butlast ss). x \<noteq> []"
    unfolding bl by (cases "ss = []") simp_all
  from good have len: "int (length cur) + int (length s) = int (length (append_sentence buf s))"
  proof
    assume "cur = [] \<and> buf = []"
    then show ?thesis by (simp add: append_sentence_def)
  next
    assume "cur = buf @ [32] \<and> buf \<noteq> []"
    then show ?thesis by (simp add: append_sentence_def)
  qed
  show ?case
  proof (cases "int (length cur) + int (length s) < m")
    case True
    with Cons.prems(1) have l: "segment_loop m ss acc (cur @ s @ [32]) = (acc', cur')" by simp
    from good have st: "(cur @ s @ [32] = [] \<and> append_sentence buf s = []) \<or>
        (cur @ s @ [32] = append_sentence buf s @ [32] \<and> (append_sentence buf s \<noteq> [] \<or> ss = []))"
    proof
      assume "cur = [] \<and> buf = []"
      with s_ne show ?thesis by (simp add: append_sentence_def)
    next
      assume "cur = buf @ [32] \<and> buf \<noteq> []"
      then show ?thesis by (simp add: append_sentence_def)
    qed
    from True len have "\<not> m \<le> int (length (append_sentence buf s))" by linarith
    then have "spec_accumulate m buf (s # ss) = spec_accumulate m (append_sentence buf s) ss"
      by simp
    with Cons.IH[OF l st rest] show ?thesis by (simp only:)
  next
    case False
    let ?acc = "if cur \<noteq> [] then acc @ [strip cur] else acc"
    from False Cons.prems(1) have l: "segment_loop m ss ?acc (s @ [32]) = (acc', cur')" by simp
    from s_ne have st: "(s @ [32] = [] \<and> s = []) \<or> (s @ [32] = s @ [32] \<and> (s \<noteq> [] \<or> ss = []))"
      by simp
    from good have fl: "filter (\<lambda>c. c \<noteq> []) ?acc = filter (\<lambda>c. c \<noteq> []) acc @ flush_buffer buf"
    proof
      assume "cur = [] \<and> buf = []"
      then show ?thesis by (simp add: flush_buffer_def strip_def)
    next
      assume "cur = buf @ [32] \<and> buf \<noteq> []"
      then show ?thesis by (simp add: strip_snoc_space flush_buffer_def)
    qed
    from False len have "m \<le> int (length (append_sentence buf s))" by linarith
    then have "spec_accumulate m buf (s # ss) = flush_buffer buf @ spec_accumulate m s ss"
      by simp
    with Cons.IH[OF l st rest] fl show ?thesis by (simp only: append_assoc)
  qed
qed

text \<open>
  The chunks of \<^verbatim>\<open>simple_segment\<close> that are not empty are, in order, the chunks that
  the described accumulation completes.
\<close>

lemma simple_segment_chunks:
  "filter (\<lambda>c. c \<noteq> []) (simple_segment c m) = spec_accumulate m [] (spec_sentences c)"
proof -
  obtain acc cur where l: "segment_loop m (re_split c) [] [] = (acc, cur)"
    by (cases "segment_loop m (re_split c) [] []") auto
  have "re_split c \<noteq> []" by (simp add: re_split_spec spec_sentences_nonempty)
  with segment_loop_buffer[OF l] have cur: "cur \<noteq> []" by simp
  have "filter (\<lambda>c. c \<noteq> []) (acc @ (if cur \<noteq> [] then [strip cur] else [])) =
          filter (\<lambda>c. c \<noteq> []) [] @ spec_accumulate m [] (re_split c)"
    by (rule segment_loop_chunks[OF l]) (simp_all add: re_split_spec spec_sentences_butlast)
  with l cur show ?thesis
    by (simp add: simple_segment_def Let_def re_split_spec)
qed

text \<open>Splitting drops whitespace only.\<close>

lemma spec_sentences_keeps:
  "x \<in> set cs \<Longrightarrow> \<not> is_space x \<Longrightarrow> \<exists>s \<in> set (spec_sentences cs). x \<in> set s"
proof (induction cs rule: spec_sentences.induct)
  case 1
  then show ?case by simp
next
  case (2 c cs)
  show ?case
  proof (cases "is_terminal c \<and> whitespace_next cs")
    case True
    show ?thesis
    proof (cases "x = c")
      case True
      with \<open>is_terminal c \<and> whitespace_next cs\<close> show ?thesis by simp
    next
      case False
      with 2(3) have "x \<in> set cs" by simp
      with 2(4) have "x \<in> set (dropWhile is_space cs)"
        by (metis dropWhile_append3 in_set_conv_decomp list.set_intros(1)
            set_takeWhileD takeWhile_dropWhile_id Un_iff set_append)
      from 2(1)[OF True this 2(4)] True show ?thesis by simp
    qed
  next
    case False
    obtain s ss where s: "spec_sentences cs = s # ss"
      using spec_sentences_nonempty by (cases "spec_sentences cs") auto
    have nb: "(is_terminal c \<and> whitespace_next cs) = False" using False by simp
    have e: "spec_sentences (c # cs) = (c # s) # ss"
      by (simp only: spec_sentences.simps nb if_False s list.case)
    show ?thesis
    proof (cases "x = c")
      case True
      then show ?thesis unfolding e by simp
    next
      case False
      with 2(3) have "x \<in> set cs" by simp
      from 2(2)[OF \<open>\<not> (is_terminal c \<and> whitespace_next cs)\<close> this 2(4)] s
      show ?thesis unfolding e by auto
    qed
  qed
qed

lemma spec_accumulate_nonempty:
  "(\<exists>x \<in> set buf. \<not> is_space x) \<or> (\<exists>s \<in> set ss. \<exists>x \<in> set s. \<not> is_space x) \<Longrightarrow>
   spec_accumulate m buf ss \<noteq> []"
proof (induction ss arbitrary: buf)
  case Nil
  then show ?case by (simp add: flush_buffer_def strip_Nil_iff)
next
  case (Cons s ss)
  show ?case
  proof (cases "m \<le> int (length (append_sentence buf s))")
    case True
    show ?thesis
    proof (cases "\<exists>x \<in> set buf. \<not> is_space x")
      case True
      then have "flush_buffer buf \<noteq> []" by (simp add: flush_buffer_def strip_Nil_iff)
      with \<open>m \<le> int (length (append_sentence buf s))\<close> show ?thesis by simp
    next
      case False
      with Cons.prems have "(\<exists>x \<in> set s. \<not> is_space x) \<or> (\<exists>t \<in> set ss. \<exists>x \<in> set t. \<not> is_space x)"
        by auto
      from Cons.IH[OF this] \<open>m \<le> int (length (append_sentence buf s))\<close> show ?thesis by simp
    qed
  next
    case False
    from Cons.prems have "(\<exists>x \<in> set (append_sentence buf s). \<not> is_space x) \<or>
        (\<exists>t \<in> set ss. \<exists>x \<in> set t. \<not> is_space x)"
      by (auto simp: append_sentence_def)
    from Cons.IH[OF this] False show ?thesis by simp
  qed
qed

text \<open>
  For a text that holds more than whitespace, the chunks of \<^verbatim>\<open>simple_segment\<close> that
  are not empty are, in order, the chunks of the segmenter as the specification words it.
\<close>

lemma simple_segment_chunks_spec:
  assumes "strip c \<noteq> []"
  shows "filter (\<lambda>c. c \<noteq> []) (simple_segment c m) = segment_spec c m"
proof -
  from assms obtain x where x: "x \<in> set c" "\<not> is_space x"
    by (auto simp: strip_Nil_iff)
  from spec_sentences_keeps[OF x] obtain s where "s \<in> set (spec_sentences c)" "x \<in> set s"
    by blast
  with x(2) have "\<exists>s \<in> set (spec_sentences c). \<exists>x \<in> set s. \<not> is_space x"
    by blast
  then have "spec_accumulate m [] (spec_sentences c) \<noteq> []"
    by (intro spec_accumulate_nonempty) simp
  then show ?thesis
    by (simp add: segment_spec_def Let_def simple_segment_chunks)
qed

text \<open>
  Claim C4. The text \<^verbatim>\<open>One. Two. \<close> has the sentences \<^verbatim>\<open>One.\<close>, \<^verbatim>\<open>Two.\<close> and, behind
  the final whitespace, the empty sentence. With \<open>max_length\<close> 5 each sentence fills
  the buffer, so the buffer that remains after the last sentence holds the empty sentence
  only. The procedure of the claim flushes a remaining buffer that is not empty, and
  gives the two chunks; \<^verbatim>\<open>simple_segment\<close> tests \<^verbatim>\<open>if current_chunk:\<close> on a buffer
  that always ends with the space appended after the sentence, and returns a third, empty
  chunk.
\<close>

theorem simple_segment_flushes_blank_buffer:
  "simple_segment (ustr ''One. Two. '') 5 = [ustr ''One.'', ustr ''Two.'', []] \<and>
   segment_spec (ustr ''One. Two. '') 5 = [ustr ''One.'', ustr ''Two.'']"
  by (simp add: simple_segment_def re_split_def segment_spec_def append_sentence_def
      flush_buffer_def whitespace_next_def ustr_def is_terminal_def is_space_def strip_def Let_def)

text \<open>
  Claim C5. The text consisting of one space is not empty, yet \<^verbatim>\<open>simple_segment\<close>
  returns for it a list whose only chunk is the empty string: the test
  \<^verbatim>\<open>if current_chunk:\<close> looks at the buffer before \<^verbatim>\<open>strip()\<close>, and the buffer
  always ends with the space appended after the sentence. In the same way a text that
  ends with whitespace after its last sentence yields an empty last chunk when that
  sentence has filled the buffer.
\<close>

theorem simple_segment_whitespace_text_empty_chunk:
  "simple_segment (ustr '' '') 500 = [[]] \<and>
   simple_segment (ustr ''Hello. '') 3 = [ustr ''Hello.'', []]"
  by (simp add: simple_segment_def re_split_def ustr_def is_terminal_def is_space_def strip_def)

section \<open>The log of calls\<close>

lemma commits_append: "commits (xs @ ys) = commits xs @ commits ys"
  by (induction xs rule: commits.induct) auto

lemma last_commit_snoc_index: "last_commit (evs @ [IndexCall rows None]) = Some rows"
proof -
  obtain c cs where c: "commits evs @ [rows] = c # cs"
    by (cases "commits evs @ [rows]") auto
  then have "last (c # cs) = rows"
    by (metis last_snoc)
  with c show ?thesis
    by (simp add: last_commit_def commits_append)
qed

lemma last_commit_snoc_index_app: "last_commit (evs @ evs' @ [IndexCall rows None]) = Some rows"
  using last_commit_snoc_index[of "evs @ evs'" rows] by simp

section \<open>Outcomes of the indexing statement and of \<^verbatim>\<open>process_text\<close>\<close>

lemma index_fresh_None:
  assumes "index_fresh W st documents = (None, st')"
  shows "st' = st\<lparr>calls := calls st @ [IndexCall documents None], embeddings_indexed := True\<rparr>"
  using assms
  by (auto simp: index_fresh_def embeddings_index_def Let_def split: option.splits)

lemma index_fresh_Some:
  assumes "index_fresh W st documents = (Some e, st')"
  shows "st' = st\<lparr>calls := calls st @ [IndexCall documents (Some e)]\<rparr>"
  using assms
  by (auto simp: index_fresh_def embeddings_index_def Let_def split: option.splits)

lemma append_to_index_None:
  assumes "append_to_index W st documents = (None, st')"
  shows "\<exists>existing.
           search_outcome W (calls st) select_all 10000 = Inr existing \<and>
           index_outcome W (calls st @ [SearchCall select_all 10000 (Inr existing)])
             (existing @ documents) = None \<and>
           st' = st\<lparr>calls := calls st @ [SearchCall select_all 10000 (Inr existing),
                                            IndexCall (existing @ documents) None]\<rparr>"
  using assms
  by (auto simp: append_to_index_def embeddings_search_def embeddings_index_def Let_def
      split: sum.splits)

lemma append_to_index_Some:
  assumes "append_to_index W st documents = (Some e, st')"
  shows "\<exists>evs. st' = st\<lparr>calls := calls st @ evs\<rparr>"
proof (cases "search_outcome W (calls st) select_all 10000")
  case (Inl x)
  with assms have "st' = st\<lparr>calls := calls st @ [SearchCall select_all 10000 (Inl x)]\<rparr>"
    by (auto simp: append_to_index_def embeddings_search_def Let_def)
  then show ?thesis by blast
next
  case (Inr existing)
  with assms have "st' = st\<lparr>calls := calls st @ [SearchCall select_all 10000 (Inr existing),
      IndexCall (existing @ documents) (Some e)]\<rparr>"
    by (auto simp: append_to_index_def embeddings_search_def embeddings_index_def Let_def)
  then show ?thesis by blast
qed

lemma index_documents_Some:
  assumes "index_documents W st documents = (Some e, st')"
  shows "\<exists>evs. calls st' = calls st @ evs @ [IndexCall documents (Some e)] \<and>
           embeddings_indexed st' = embeddings_indexed st \<and> documents_store st' = documents_store st"
proof (cases "embeddings_indexed st")
  case False
  with assms have "index_fresh W st documents = (Some e, st')"
    by (simp add: index_documents_def)
  from index_fresh_Some[OF this]
  have "calls st' = calls st @ [] @ [IndexCall documents (Some e)] \<and>
           embeddings_indexed st' = embeddings_indexed st \<and> documents_store st' = documents_store st"
    by simp
  then show ?thesis by blast
next
  case True
  obtain r st1 where a: "append_to_index W st documents = (r, st1)"
    by (cases "append_to_index W st documents") auto
  show ?thesis
  proof (cases r)
    case None
    with a True assms show ?thesis by (simp add: index_documents_def)
  next
    case (Some e1)
    with a True assms have f: "index_fresh W st1 documents = (Some e, st')"
      by (simp add: index_documents_def)
    from append_to_index_Some a Some obtain evs where "st1 = st\<lparr>calls := calls st @ evs\<rparr>"
      by blast
    with index_fresh_Some[OF f]
    have "calls st' = calls st @ evs @ [IndexCall documents (Some e)] \<and>
           embeddings_indexed st' = embeddings_indexed st \<and> documents_store st' = documents_store st"
      by simp
    then show ?thesis by blast
  qed
qed

text \<open>
  A successful indexing statement ends with a commit: of the read-back rows followed by
  the new documents when the append path went through, of the new documents alone in
  every other case.
\<close>

lemma index_documents_None:
  assumes "index_documents W st documents = (None, st')"
  shows "(\<forall>existing. append_succeeds W st documents existing \<longrightarrow>
            calls st' = calls st @ [SearchCall select_all 10000 (Inr existing),
                                     IndexCall (existing @ documents) None]) \<and>
         ((\<forall>existing. \<not> append_succeeds W st documents existing) \<longrightarrow>
            (\<exists>evs. calls st' = calls st @ evs @ [IndexCall documents None])) \<and>
         embeddings_indexed st' \<and> documents_store st' = documents_store st"
proof (cases "embeddings_indexed st")
  case False
  with assms have "index_fresh W st documents = (None, st')"
    by (simp add: index_documents_def)
  from index_fresh_None[OF this]
  have c: "calls st' = calls st @ [] @ [IndexCall documents None]"
    and r: "embeddings_indexed st'" "documents_store st' = documents_store st"
    by simp_all
  from False have no: "\<not> append_succeeds W st documents existing" for existing
    by (simp add: append_succeeds_def)
  from c have "\<exists>evs. calls st' = calls st @ evs @ [IndexCall documents None]" ..
  with no r show ?thesis by simp
next
  case True
  obtain r st1 where a: "append_to_index W st documents = (r, st1)"
    by (cases "append_to_index W st documents") auto
  show ?thesis
  proof (cases r)
    case None
    with a True assms have "st' = st1" by (simp add: index_documents_def)
    with append_to_index_None a None obtain existing where
      s: "search_outcome W (calls st) select_all 10000 = Inr existing"
        "index_outcome W (calls st @ [SearchCall select_all 10000 (Inr existing)])
           (existing @ documents) = None"
      and st': "st' = st\<lparr>calls := calls st @ [SearchCall select_all 10000 (Inr existing),
                                             IndexCall (existing @ documents) None]\<rparr>"
      by blast
    from s True have yes: "append_succeeds W st documents existing"
      by (simp add: append_succeeds_def)
    have only: "existing' = existing" if "append_succeeds W st documents existing'" for existing'
      using that s(1) by (simp add: append_succeeds_def)
    have c1: "\<forall>existing'. append_succeeds W st documents existing' \<longrightarrow>
        calls st' = calls st @ [SearchCall select_all 10000 (Inr existing'),
                                 IndexCall (existing' @ documents) None]"
    proof (intro allI impI)
      fix existing'
      assume "append_succeeds W st documents existing'"
      from only[OF this] st' show "calls st' =
          calls st @ [SearchCall select_all 10000 (Inr existing'),
                      IndexCall (existing' @ documents) None]"
        by simp
    qed
    have c2: "(\<forall>existing. \<not> append_succeeds W st documents existing) \<longrightarrow>
        (\<exists>evs. calls st' = calls st @ evs @ [IndexCall documents None])"
      using yes by blast
    from st' True have c3: "embeddings_indexed st'" "documents_store st' = documents_store st"
      by simp_all
    from c1 c2 c3 show ?thesis by (intro conjI)
  next
    case (Some e)
    with a True assms have f: "index_fresh W st1 documents = (None, st')"
      by (simp add: index_documents_def)
    from append_to_index_Some a Some obtain evs where st1: "st1 = st\<lparr>calls := calls st @ evs\<rparr>"
      by blast
    have no: "\<not> append_succeeds W st documents existing" for existing
    proof
      assume "append_succeeds W st documents existing"
      then have "append_to_index W st documents =
          (None, st\<lparr>calls := calls st @ [SearchCall select_all 10000 (Inr existing),
                                         IndexCall (existing @ documents) None]\<rparr>)"
        by (simp add: append_succeeds_def append_to_index_def embeddings_search_def
            embeddings_index_def Let_def)
      with a Some show False by simp
    qed
    from index_fresh_None[OF f] st1
    have c: "calls st' = calls st @ evs @ [IndexCall documents None]"
      and r: "embeddings_indexed st'" "documents_store st' = documents_store st"
      by simp_all
    from c have "\<exists>evs. calls st' = calls st @ evs @ [IndexCall documents None]" ..
    with no r show ?thesis by simp
  qed
qed

text \<open>\<^verbatim>\<open>process_text\<close> behind the document id, for a request with a metadata dictionary.\<close>

lemma process_chunks_Some:
  assumes "req_metadata request = Some md"
  shows "process_chunks W st request D =
           (case index_documents W
                   (st\<lparr>documents_store := AList.update D (request_info request) (documents_store st)\<rparr>)
                   (request_documents D request md) of
              (Some e, st2) \<Rightarrow> (Inl e, st2)
            | (None, st2) \<Rightarrow>
                (Inr \<lparr>resp_doc_id = D,
                      resp_chunks = length (simple_segment (req_content request) 500),
                      resp_title = req_title request, resp_status = ''success''\<rparr>, st2))"
  using assms simple_segment_nonempty[of "req_content request" 500]
  by (simp add: process_chunks_def build_documents_def request_documents_def request_info_def
      Let_def)

lemma process_chunks_None:
  assumes "req_metadata request = None"
  shows "process_chunks W st request D = (Inl TypeError, st)"
  using assms simple_segment_nonempty[of "req_content request" 500]
  by (simp add: process_chunks_def build_documents_def Let_def)

text \<open>
  A successful \<^verbatim>\<open>process_text\<close> has encoded the content, found a metadata dictionary,
  written the registry entry and ended with a successful commit.
\<close>

lemma process_text_Inr:
  assumes "process_text W st request = (Inr resp, st')"
  shows "\<exists>bytes md.
           encode (req_content request) = Inr bytes \<and> req_metadata request = Some md \<and>
           index_documents W
             (st\<lparr>documents_store :=
                  AList.update (md5_hexdigest W bytes) (request_info request) (documents_store st)\<rparr>)
             (request_documents (md5_hexdigest W bytes) request md) = (None, st') \<and>
           resp = \<lparr>resp_doc_id = md5_hexdigest W bytes,
                   resp_chunks = length (simple_segment (req_content request) 500),
                   resp_title = req_title request, resp_status = ''success''\<rparr>"
proof -
  from assms obtain bytes where b: "encode (req_content request) = Inr bytes"
    by (cases "encode (req_content request)")
       (auto simp: process_text_def process_text_body_def to_500_def)
  from assms b obtain md where md: "req_metadata request = Some md"
    by (cases "req_metadata request")
       (auto simp: process_text_def process_text_body_def to_500_def process_chunks_None)
  let ?st1 = "st\<lparr>documents_store :=
      AList.update (md5_hexdigest W bytes) (request_info request) (documents_store st)\<rparr>"
  let ?docs = "request_documents (md5_hexdigest W bytes) request md"
  obtain r st2 where i: "index_documents W ?st1 ?docs = (r, st2)"
    by (cases "index_documents W ?st1 ?docs") auto
  from assms b i have "r = None \<and> st2 = st' \<and>
      resp = \<lparr>resp_doc_id = md5_hexdigest W bytes,
              resp_chunks = length (simple_segment (req_content request) 500),
              resp_title = req_title request, resp_status = ''success''\<rparr>"
    by (cases r)
       (auto simp: process_text_def process_text_body_def to_500_def process_chunks_Some[OF md])
  with b md i show ?thesis by blast
qed

text \<open>
  A failing \<^verbatim>\<open>process_text\<close> has either failed before the registry entry was written,
  with no call on the embeddings object, or has written the entry and ended with a
  failed commit of the new documents.
\<close>

lemma process_text_Inl:
  assumes "process_text W st request = (Inl err, st')"
  shows "(st' = st \<and> (encode (req_content request) = Inl UnicodeEncodeError \<or>
                        req_metadata request = None)) \<or>
         (\<exists>bytes md e evs.
            encode (req_content request) = Inr bytes \<and> req_metadata request = Some md \<and>
            err = HTTPException 500 (StrOf e) \<and>
            calls st' = calls st @ evs @
              [IndexCall (request_documents (md5_hexdigest W bytes) request md) (Some e)] \<and>
            embeddings_indexed st' = embeddings_indexed st \<and>
            documents_store st' =
              AList.update (md5_hexdigest W bytes) (request_info request) (documents_store st))"
proof (cases "encode (req_content request)")
  case (Inl e)
  have "encode cs = Inl x \<Longrightarrow> x = UnicodeEncodeError" for cs x
    by (induction cs) (auto split: if_splits sum.splits)
  with Inl have "encode (req_content request) = Inl UnicodeEncodeError" by blast
  moreover from assms Inl have "st' = st"
    by (simp add: process_text_def process_text_body_def to_500_def)
  ultimately show ?thesis by blast
next
  case (Inr bytes)
  show ?thesis
  proof (cases "req_metadata request")
    case None
    with assms Inr have "st' = st"
      by (simp add: process_text_def process_text_body_def to_500_def process_chunks_None)
    with None show ?thesis by blast
  next
    case (Some md)
    let ?st1 = "st\<lparr>documents_store :=
        AList.update (md5_hexdigest W bytes) (request_info request) (documents_store st)\<rparr>"
    let ?docs = "request_documents (md5_hexdigest W bytes) request md"
    obtain r st2 where i: "index_documents W ?st1 ?docs = (r, st2)"
      by (cases "index_documents W ?st1 ?docs") auto
    from assms Inr i obtain e where r: "r = Some e" "st2 = st'" "err = HTTPException 500 (StrOf e)"
      by (cases r)
         (auto simp: process_text_def process_text_body_def to_500_def process_chunks_Some[OF Some])
    from index_documents_Some[of W ?st1 ?docs e st'] i r
    obtain evs where
      "calls st' = calls st @ evs @ [IndexCall ?docs (Some e)]"
      "embeddings_indexed st' = embeddings_indexed st"
      "documents_store st' =
         AList.update (md5_hexdigest W bytes) (request_info request) (documents_store st)"
      by auto
    with Inr Some r(3) show ?thesis by blast
  qed
qed

section \<open>The documents of a request\<close>

lemma map_of_dict_merge_absent:
  "map_of extra k = None \<Longrightarrow> map_of (dict_merge base extra) k = map_of base k"
proof (induction extra arbitrary: base)
  case Nil
  then show ?case by (simp add: dict_merge_def)
next
  case (Cons p extra)
  obtain k' v' where p: "p = (k', v')" by (cases p)
  with Cons.prems have k: "k' \<noteq> k" "map_of extra k = None"
    by (auto split: if_splits)
  have "map_of (dict_merge base (p # extra)) k = map_of (dict_merge (AList.update k' v' base) extra) k"
    by (simp add: dict_merge_def p)
  also have "\<dots> = map_of (AList.update k' v' base) k"
    by (rule Cons.IH[OF k(2)])
  also have "\<dots> = map_of base k"
    using k(1) by (simp add: update_conv')
  finally show ?case .
qed

lemma make_document_doc_id:
  "map_of md (ustr ''doc_id'') = None \<Longrightarrow>
   map_of (make_document D T md ic) (ustr ''doc_id'') = Some (VStr D)"
  by (simp add: make_document_def map_of_dict_merge_absent) (simp add: ustr_def)

lemma make_document_id:
  "map_of md (ustr ''id'') = None \<Longrightarrow>
   map_of (make_document D T md ic) (ustr ''id'') = Some (VStr (D @ [95] @ str_nat (fst ic)))"
  by (simp add: make_document_def map_of_dict_merge_absent)

lemma count_doc_chunks_append:
  "count_doc_chunks D (xs @ ys) = count_doc_chunks D xs + count_doc_chunks D ys"
  by (simp add: count_doc_chunks_def)

lemma length_request_documents:
  "length (request_documents D request md) = length (simple_segment (req_content request) 500)"
  by (simp add: request_documents_def)

lemma count_doc_chunks_request_documents:
  assumes "map_of md (ustr ''doc_id'') = None"
  shows "count_doc_chunks D (request_documents D request md) =
           length (simple_segment (req_content request) 500)"
proof -
  have "filter (\<lambda>r. map_of r (ustr ''doc_id'') = Some (VStr D)) (request_documents D request md) =
          request_documents D request md"
    by (rule filter_True) (auto simp: request_documents_def make_document_doc_id[OF assms])
  then show ?thesis
    by (simp add: count_doc_chunks_def length_request_documents)
qed

text \<open>The decimal digits of a number determine it.\<close>

lemma str_nat_value: "foldl (\<lambda>a d. 10 * a + (d - 48)) 0 (str_nat n) = n"
proof (induction n rule: str_nat.induct)
  case (1 n)
  show ?case
  proof (cases "n < 10")
    case True
    then show ?thesis by (simp add: str_nat.simps[of n])
  next
    case False
    with 1 show ?thesis by (simp add: str_nat.simps[of n])
  qed
qed

lemma str_nat_inj: "str_nat m = str_nat n \<Longrightarrow> m = n"
  by (metis str_nat_value)

lemma row_ids_request_documents:
  assumes "map_of md (ustr ''id'') = None"
  shows "row_ids (request_documents D request md) =
           map (\<lambda>i. Some (VStr (D @ [95] @ str_nat i)))
             [0..<length (simple_segment (req_content request) 500)]"
proof -
  let ?chs = "simple_segment (req_content request) 500"
  have "row_ids (request_documents D request md) =
          map (\<lambda>ic. Some (VStr (D @ [95] @ str_nat (fst ic)))) (enumerate 0 ?chs)"
    by (simp add: row_ids_def request_documents_def make_document_id[OF assms])
  also have "\<dots> = map (\<lambda>i. Some (VStr (D @ [95] @ str_nat i))) (map fst (enumerate 0 ?chs))"
    by (simp only: map_map comp_def)
  also have "map fst (enumerate 0 ?chs) = [0..<length ?chs]"
    by simp
  finally show ?thesis .
qed

lemma distinct_row_ids_request_documents:
  assumes "map_of md (ustr ''id'') = None"
  shows "distinct (row_ids (request_documents D request md))"
proof -
  have "inj_on (\<lambda>i. Some (VStr (D @ [95] @ str_nat i))) A" for A
    by (auto simp: inj_on_def dest: str_nat_inj)
  then show ?thesis
    by (simp add: row_ids_request_documents[OF assms] distinct_map)
qed

lemma append_succeeds_store:
  "append_succeeds W (st\<lparr>documents_store := x\<rparr>) documents existing =
   append_succeeds W st documents existing"
  by (simp add: append_succeeds_def)

text \<open>
  After a successful \<^verbatim>\<open>process_text\<close> the registry holds the entry of the request and
  the last commit is the read-back rows followed by the new documents when the append
  path went through, the new documents alone otherwise.
\<close>

lemma process_text_commit:
  assumes "process_text W st request = (Inr resp, st')"
    and "encode (req_content request) = Inr bytes"
    and "req_metadata request = Some md"
  shows "map_of (documents_store st') (md5_hexdigest W bytes) = Some (request_info request) \<and>
         resp_chunks resp = length (simple_segment (req_content request) 500) \<and>
         (\<forall>existing. append_succeeds W st (request_documents (md5_hexdigest W bytes) request md)
                       existing \<longrightarrow>
            last_commit (calls st') =
              Some (existing @ request_documents (md5_hexdigest W bytes) request md)) \<and>
         ((\<forall>existing. \<not> append_succeeds W st
                         (request_documents (md5_hexdigest W bytes) request md) existing) \<longrightarrow>
            last_commit (calls st') =
              Some (request_documents (md5_hexdigest W bytes) request md))"
proof -
  let ?D = "md5_hexdigest W bytes"
  let ?docs = "request_documents ?D request md"
  let ?st1 = "st\<lparr>documents_store := AList.update ?D (request_info request) (documents_store st)\<rparr>"
  from process_text_Inr[OF assms(1)] assms(2,3)
  have i: "index_documents W ?st1 ?docs = (None, st')"
    and r: "resp_chunks resp = length (simple_segment (req_content request) 500)"
    by auto
  from index_documents_None[OF i]
  have a: "\<forall>existing. append_succeeds W st ?docs existing \<longrightarrow>
            calls st' = calls st @ [SearchCall select_all 10000 (Inr existing),
                                     IndexCall (existing @ ?docs) None]"
    and b: "(\<forall>existing. \<not> append_succeeds W st ?docs existing) \<longrightarrow>
            (\<exists>evs. calls st' = calls st @ evs @ [IndexCall ?docs None])"
    and d: "documents_store st' = AList.update ?D (request_info request) (documents_store st)"
    by (simp_all add: append_succeeds_store)
  from d have "map_of (documents_store st') ?D = Some (request_info request)"
    by (simp add: update_conv')
  moreover have "\<forall>existing. append_succeeds W st ?docs existing \<longrightarrow>
      last_commit (calls st') = Some (existing @ ?docs)"
  proof (intro allI impI)
    fix existing
    assume "append_succeeds W st ?docs existing"
    with a have "calls st' = calls st @ [SearchCall select_all 10000 (Inr existing)] @
        [IndexCall (existing @ ?docs) None]"
      by simp
    then show "last_commit (calls st') = Some (existing @ ?docs)"
      by (simp only: last_commit_snoc_index_app)
  qed
  moreover have "(\<forall>existing. \<not> append_succeeds W st ?docs existing) \<longrightarrow>
      last_commit (calls st') = Some ?docs"
  proof
    assume "\<forall>existing. \<not> append_succeeds W st ?docs existing"
    with b obtain evs where "calls st' = calls st @ evs @ [IndexCall ?docs None]"
      by blast
    then show "last_commit (calls st') = Some ?docs"
      by (simp only: last_commit_snoc_index_app)
  qed
  ultimately show ?thesis using r by (intro conjI)
qed

section \<open>The sample inputs evaluated\<close>

lemma sample_segment: "simple_segment sample_content 500 = [sample_content]"
  by (simp add: simple_segment_def re_split_def sample_content_def ustr_def is_terminal_def
      is_space_def strip_def)

lemma second_segment: "simple_segment second_content 500 = [second_content]"
  by (simp add: simple_segment_def re_split_def second_content_def ustr_def is_terminal_def
      is_space_def strip_def)

lemma str_nat_0: "str_nat 0 = [48]"
  by (simp add: str_nat.simps)

lemma sample_digest_sample: "sample_digest sample_content = sample_id"
  by (simp add: sample_digest_def)

lemma sample_digest_second: "sample_digest second_content = second_id"
  by (simp add: sample_digest_def second_content_def sample_content_def ustr_def)

lemma encode_sample: "encode sample_content = Inr sample_content"
  by (simp add: sample_content_def ustr_def is_surrogate_def utf8_def)

lemma encode_second: "encode second_content = Inr second_content"
  by (simp add: second_content_def ustr_def is_surrogate_def utf8_def)

lemma sample_build:
  "build_documents sample_id (ustr ''animals'') (Some []) [sample_content] = Inr sample_documents"
  by (simp add: build_documents_def enumerate_eq_zip make_document_def dict_merge_def
      sample_documents_def str_nat_0 sample_id_def ustr_def)

lemma second_build:
  "build_documents second_id (ustr ''greeting'') (Some [(ustr ''lang'', VStr (ustr ''en''))])
     [second_content] = Inr second_documents"
  by (simp add: build_documents_def enumerate_eq_zip make_document_def dict_merge_def
      second_documents_def str_nat_0 second_id_def ustr_def)

lemma sample_request_documents: "request_documents sample_id sample_request [] = sample_documents"
  using sample_build
  by (simp add: request_documents_def sample_request_def sample_segment build_documents_def)

lemma second_request_documents:
  "request_documents second_id second_request [(ustr ''lang'', VStr (ustr ''en''))] =
     second_documents"
  using second_build
  by (simp add: request_documents_def second_request_def second_segment build_documents_def)

lemma sample_request_metadata: "req_metadata sample_request = Some []"
  by (simp add: sample_request_def)

lemma second_request_metadata:
  "req_metadata second_request = Some [(ustr ''lang'', VStr (ustr ''en''))]"
  by (simp add: second_request_def)

lemma sample_request_encode: "encode (req_content sample_request) = Inr sample_content"
  by (simp add: sample_request_def encode_sample)

lemma second_request_encode: "encode (req_content second_request) = Inr second_content"
  by (simp add: second_request_def encode_second)

lemma sample_ne_second: "sample_id \<noteq> second_id"
  by (simp add: sample_id_def second_id_def ustr_def)

lemma first_ingest:
  "process_text readback_world empty_state sample_request = (Inr sample_response, indexed_state)"
  by (simp add: process_text_def process_text_body_def process_chunks_def to_500_def
      index_documents_def index_fresh_def embeddings_index_def Let_def readback_world_def
      sample_request_def encode_sample sample_digest_sample sample_segment sample_build
      empty_state_def indexed_state_def sample_response_def)

lemma second_ingest:
  "process_text readback_world indexed_state sample_request = (Inr sample_response, reindexed_state)"
  by (simp add: process_text_def process_text_body_def process_chunks_def to_500_def
      index_documents_def append_to_index_def embeddings_search_def embeddings_index_def Let_def
      readback_world_def sample_request_def encode_sample sample_digest_sample sample_segment
      sample_build indexed_state_def reindexed_state_def sample_response_def last_commit_def
      sample_documents_def)

lemma append_ingest:
  "process_text readback_world indexed_state second_request = (Inr second_response, appended_state)"
  using sample_ne_second
  by (simp add: process_text_def process_text_body_def process_chunks_def to_500_def
      index_documents_def append_to_index_def embeddings_search_def embeddings_index_def Let_def
      readback_world_def second_request_def encode_second sample_digest_second second_segment
      second_build indexed_state_def appended_state_def second_response_def last_commit_def
      sample_documents_def)

lemma failed_ingest:
  "process_text failing_index_world empty_state sample_request =
     (Inl (HTTPException 500 (StrOf (LibraryError ''commit failed''))), failed_state)"
  by (simp add: process_text_def process_text_body_def process_chunks_def to_500_def
      index_documents_def index_fresh_def embeddings_index_def Let_def failing_index_world_def
      sample_request_def encode_sample sample_digest_sample sample_segment sample_build
      empty_state_def failed_state_def)

lemma sample_documents_doc_id:
  "count_doc_chunks sample_id sample_documents = 1"
  by (simp add: count_doc_chunks_def sample_documents_def ustr_def)

lemma append_succeeds_sample:
  "append_succeeds readback_world indexed_state documents sample_documents"
  by (simp add: append_succeeds_def readback_world_def indexed_state_def last_commit_def
      sample_documents_def)

lemma append_succeeds_empty: "\<not> append_succeeds W empty_state documents existing"
  by (simp add: append_succeeds_def empty_state_def)

lemma near_row_score: "map_of near_row (ustr ''score'') = Some (VFloat (5 / 8))"
  by (simp add: near_row_def ustr_def)

lemma far_row_score: "map_of far_row (ustr ''score'') = Some (VFloat (- 1 / 8))"
  by (simp add: far_row_def ustr_def)

lemma format_near_row:
  "format_result (documents_store indexed_state) near_row (VFloat (5 / 8)) = Inr near_hit"
  by (simp add: format_result_def near_row_def near_hit_def indexed_state_def dict_get_def
      store_entry_def sample_id_def ustr_def Let_def)

section \<open>Insert with a failing read-back\<close>

text \<open>
  Claim C1 as stated fails: in state Indexed the read-back raises, the commit of the new
  documents raises as well, and the request fails with status 500 instead of returning a
  success response.
\<close>

theorem process_text_readback_and_commit_failure:
  "embeddings_indexed indexed_state \<and>
   search_outcome dead_world (calls indexed_state) select_all 10000 =
     Inl (LibraryError ''index unreachable'') \<and>
   process_text dead_world indexed_state second_request =
     (Inl (HTTPException 500 (StrOf (LibraryError ''commit failed''))),
      \<lparr>documents_store =
         [(sample_id, \<lparr>title = ustr ''animals'', chunks = 1, metadata = Some []\<rparr>),
          (second_id, \<lparr>title = ustr ''greeting'', chunks = 1,
                       metadata = Some [(ustr ''lang'', VStr (ustr ''en''))]\<rparr>)],
       embeddings_indexed = True,
       calls = [IndexCall sample_documents None,
                SearchCall select_all 10000 (Inl (LibraryError ''index unreachable'')),
                IndexCall second_documents (Some (LibraryError ''commit failed''))]\<rparr>)"
proof -
  have "sample_id \<noteq> second_id"
    by (simp add: sample_id_def second_id_def ustr_def)
  then show ?thesis
    by (simp add: process_text_def process_text_body_def process_chunks_def to_500_def
        index_documents_def append_to_index_def index_fresh_def embeddings_search_def
        embeddings_index_def Let_def dead_world_def second_request_def encode_second
        sample_digest_second second_segment second_build indexed_state_def)
qed

text \<open>
  Claim C1, amended. An insert is performed in state Indexed (the flag is set, the content
  has been encoded and the request's documents have been built). If the read-back
  \<^verbatim>\<open>SELECT * FROM sections\<close> raises, the code falls back to committing only the new
  documents: the only calls made are the failed read-back and that commit, and the flag
  is still set. When the commit succeeds, the request returns the success response and
  the last commit holds the new documents alone, so every chunk committed before is gone
  from the index; when the commit raises, the request fails with status 500.
\<close>

theorem process_text_readback_failure_fallback:
  assumes "embeddings_indexed st"
    and "encode (req_content request) = Inr bytes"
    and "build_documents (md5_hexdigest W bytes) (req_title request)
           (req_metadata request) (simple_segment (req_content request) 500) = Inr documents"
    and "search_outcome W (calls st) select_all 10000 = Inl e"
    and "index_outcome W (calls st @ [SearchCall select_all 10000 (Inl e)]) documents = outcome"
  shows "embeddings_indexed (snd (process_text W st request)) \<and>
         calls (snd (process_text W st request)) =
           calls st @ [SearchCall select_all 10000 (Inl e), IndexCall documents outcome] \<and>
         (outcome = None \<longrightarrow>
            fst (process_text W st request) =
              Inr \<lparr>resp_doc_id = md5_hexdigest W bytes,
                   resp_chunks = length (simple_segment (req_content request) 500),
                   resp_title = req_title request, resp_status = ''success''\<rparr> \<and>
            last_commit (calls (snd (process_text W st request))) = Some documents) \<and>
         (\<forall>e'. outcome = Some e' \<longrightarrow>
            fst (process_text W st request) = Inl (HTTPException 500 (StrOf e')))"
proof (cases outcome)
  case None
  have r: "process_text W st request =
      (Inr \<lparr>resp_doc_id = md5_hexdigest W bytes,
            resp_chunks = length (simple_segment (req_content request) 500),
            resp_title = req_title request, resp_status = ''success''\<rparr>,
       st\<lparr>documents_store :=
            AList.update (md5_hexdigest W bytes)
              \<lparr>title = req_title request,
               chunks = length (simple_segment (req_content request) 500),
               metadata = req_metadata request\<rparr>
              (documents_store st),
          calls := calls st @ [SearchCall select_all 10000 (Inl e), IndexCall documents None],
          embeddings_indexed := True\<rparr>)"
    using assms None
    by (simp add: process_text_def process_text_body_def process_chunks_def to_500_def
        index_documents_def append_to_index_def index_fresh_def embeddings_search_def
        embeddings_index_def Let_def)
  have "last_commit (calls st @ [SearchCall select_all 10000 (Inl e), IndexCall documents None]) =
          Some documents"
    using last_commit_snoc_index[of "calls st @ [SearchCall select_all 10000 (Inl e)]" documents]
    by simp
  then show ?thesis using None by (simp add: r)
next
  case (Some e')
  have r: "process_text W st request =
      (Inl (HTTPException 500 (StrOf e')),
       st\<lparr>documents_store :=
            AList.update (md5_hexdigest W bytes)
              \<lparr>title = req_title request,
               chunks = length (simple_segment (req_content request) 500),
               metadata = req_metadata request\<rparr>
              (documents_store st),
          calls := calls st @ [SearchCall select_all 10000 (Inl e), IndexCall documents (Some e')]\<rparr>)"
    using assms Some
    by (simp add: process_text_def process_text_body_def process_chunks_def to_500_def
        index_documents_def append_to_index_def index_fresh_def embeddings_search_def
        embeddings_index_def Let_def)
  show ?thesis using Some assms(1) by (simp add: r)
qed

theorem process_text_readback_failure_fallback_witness:
  "embeddings_indexed indexed_state \<and>
   encode (req_content second_request) = Inr second_content \<and>
   search_outcome unreachable_world (calls indexed_state) select_all 10000 =
     Inl (LibraryError ''index unreachable'') \<and>
   index_outcome unreachable_world
     (calls indexed_state @
      [SearchCall select_all 10000 (Inl (LibraryError ''index unreachable''))])
     second_documents = None \<and>
   fst (process_text unreachable_world indexed_state second_request) =
     Inr \<lparr>resp_doc_id = second_id, resp_chunks = 1, resp_title = ustr ''greeting'',
          resp_status = ''success''\<rparr> \<and>
   embeddings_indexed (snd (process_text unreachable_world indexed_state second_request)) \<and>
   calls (snd (process_text unreachable_world indexed_state second_request)) =
     [IndexCall sample_documents None,
      SearchCall select_all 10000 (Inl (LibraryError ''index unreachable'')),
      IndexCall second_documents None] \<and>
   last_commit (calls (snd (process_text unreachable_world indexed_state second_request))) =
     Some second_documents"
proof -
  have d: "md5_hexdigest unreachable_world second_content = second_id"
    by (simp add: unreachable_world_def sample_digest_second)
  have s: "simple_segment (req_content second_request) 500 = [second_content]"
    by (simp add: second_request_def second_segment)
  have h1: "embeddings_indexed indexed_state"
    by (simp add: indexed_state_def)
  have h2: "build_documents (md5_hexdigest unreachable_world second_content)
              (req_title second_request) (req_metadata second_request)
              (simple_segment (req_content second_request) 500) = Inr second_documents"
    unfolding d s by (simp add: second_request_def second_build)
  have h3: "search_outcome unreachable_world (calls indexed_state) select_all 10000 =
              Inl (LibraryError ''index unreachable'')"
    by (simp add: unreachable_world_def)
  have h4: "index_outcome unreachable_world
              (calls indexed_state @
               [SearchCall select_all 10000 (Inl (LibraryError ''index unreachable''))])
              second_documents = None"
    by (simp add: unreachable_world_def)
  have e: "calls indexed_state = [IndexCall sample_documents None]"
      "req_title second_request = ustr ''greeting''"
    by (simp_all add: indexed_state_def second_request_def)
  from process_text_readback_failure_fallback[OF h1 second_request_encode h2 h3 h4]
    h1 h3 h4 second_request_encode
  show ?thesis
    by (simp add: d s e last_commit_def)
qed

section \<open>Delete with a failing read-back\<close>

text \<open>
  Claim C2. A document id present in the registry is deleted in state Indexed. If the
  filtered read-back raises, the request returns the deleted message, the entry is
  removed from the registry, the flag is cleared, and the failed read-back is the only
  call made: no commit is performed, the list of commits is what it was.
\<close>

theorem delete_document_readback_failure:
  assumes "embeddings_indexed st"
    and "map_of (documents_store st) doc_id = Some info"
    and "search_outcome W (calls st) (select_except doc_id) 10000 = Inl e"
  shows "delete_document W st doc_id =
           (Inr \<lparr>del_message = ''Document deleted'', del_doc_id = doc_id\<rparr>,
            st\<lparr>documents_store := AList.delete doc_id (documents_store st),
               embeddings_indexed := False,
               calls := calls st @ [SearchCall (select_except doc_id) 10000 (Inl e)]\<rparr>) \<and>
         commits (calls (snd (delete_document W st doc_id))) = commits (calls st)"
  using assms
  by (simp add: delete_document_def delete_document_body_def to_500_def reindex_without_def
        embeddings_search_def Let_def commits_append)

theorem delete_document_readback_failure_witness:
  "embeddings_indexed indexed_state \<and>
   map_of (documents_store indexed_state) sample_id =
     Some \<lparr>title = ustr ''animals'', chunks = 1, metadata = Some []\<rparr> \<and>
   search_outcome unreachable_world (calls indexed_state) (select_except sample_id) 10000 =
     Inl (LibraryError ''index unreachable'') \<and>
   delete_document unreachable_world indexed_state sample_id =
     (Inr \<lparr>del_message = ''Document deleted'', del_doc_id = sample_id\<rparr>,
      \<lparr>documents_store = [], embeddings_indexed = False,
       calls = [IndexCall sample_documents None,
                SearchCall (select_except sample_id) 10000
                  (Inl (LibraryError ''index unreachable''))]\<rparr>) \<and>
   commits (calls (snd (delete_document unreachable_world indexed_state sample_id))) =
     [sample_documents]"
proof -
  have h1: "embeddings_indexed indexed_state"
    by (simp add: indexed_state_def)
  have h2: "map_of (documents_store indexed_state) sample_id =
      Some \<lparr>title = ustr ''animals'', chunks = 1, metadata = Some []\<rparr>"
    by (simp add: indexed_state_def)
  have h3: "search_outcome unreachable_world (calls indexed_state) (select_except sample_id) 10000 =
      Inl (LibraryError ''index unreachable'')"
    by (simp add: unreachable_world_def)
  from delete_document_readback_failure[OF h1 h2 h3] h1 h2 h3
  show ?thesis
    by (simp add: indexed_state_def)
qed

section \<open>Delete of an absent document\<close>

text \<open>
  A delete of an id that is not in the registry leaves the whole state unchanged, but the
  \<^verbatim>\<open>HTTPException\<close> with status 404 is raised inside the \<^verbatim>\<open>try\<close> block, whose
  \<^verbatim>\<open>except Exception\<close> clause catches it and raises status 500 in its place.
\<close>

lemma delete_document_absent:
  assumes "map_of (documents_store st) doc_id = None"
  shows "delete_document W st doc_id =
           (Inl (HTTPException 500 (StrOf (HTTPException 404 (Message ''Document not found'')))), st)"
  using assms
  by (simp add: delete_document_def delete_document_body_def to_500_def)

text \<open>
  Claim C3. The id \<^verbatim>\<open>missing\<close> is not in the registry of the empty state; deleting it
  leaves the state unchanged, as the claim says, but the outcome is status 500, not the
  not-found outcome 404 that the claim and the code's own \<^verbatim>\<open>raise\<close> intend.
\<close>

theorem delete_document_absent_returns_500:
  "map_of (documents_store empty_state) (ustr ''missing'') = None \<and>
   delete_document readback_world empty_state (ustr ''missing'') =
     (Inl (HTTPException 500 (StrOf (HTTPException 404 (Message ''Document not found'')))),
      empty_state)"
proof -
  have h: "map_of (documents_store empty_state) (ustr ''missing'') = None"
    by (simp add: empty_state_def)
  from delete_document_absent[OF h] h show ?thesis
    by simp
qed

section \<open>Search in state NotIndexed\<close>

text \<open>
  Claim C6. For every query, limit and threshold, when the flag is not set \<^verbatim>\<open>search\<close>
  returns the empty result list and leaves the state, and with it the log of calls on
  the embeddings object, unchanged: the index is not called.
\<close>

theorem search_not_indexed:
  assumes "\<not> embeddings_indexed st"
  shows "search W st request =
           (Inr \<lparr>s_results = [], s_message = Some ''No documents indexed'', s_query = None\<rparr>, st)"
  using assms
  by (simp add: search_def search_body_def to_500_def)

theorem search_not_indexed_witness:
  "\<not> embeddings_indexed empty_state \<and>
   search readback_world empty_state sample_search =
     (Inr \<lparr>s_results = [], s_message = Some ''No documents indexed'', s_query = None\<rparr>,
      empty_state)"
proof -
  have h: "\<not> embeddings_indexed empty_state"
    by (simp add: empty_state_def)
  from search_not_indexed[OF h] h show ?thesis
    by simp
qed

section \<open>Search in state Indexed\<close>

lemma format_result_score: "format_result store r v = Inr hit \<Longrightarrow> hit_score hit = v"
  by (auto simp: format_result_def Let_def split: sum.splits if_splits option.splits)

lemma lookup_doc_id_text: "\<exists>d. lookup_doc_id store (VStr s) doc_id = Inr d"
  by (induction store) auto

lemma format_result_total:
  assumes "id_is_text r"
  shows "\<exists>hit. format_result store r v = Inr hit"
proof -
  from assms obtain s where s: "dict_get r (ustr ''id'') (VStr []) = VStr s"
    by (auto simp: id_is_text_def dict_get_def split: option.splits pyval.splits)
  obtain d where "lookup_doc_id store (VStr s) (dict_get r (ustr ''doc_id'') (VStr [])) = Inr d"
    using lookup_doc_id_text by blast
  with s show ?thesis
    by (simp add: format_result_def Let_def)
qed

lemma format_results_total:
  assumes "\<forall>r \<in> set raw. row_score r \<noteq> None \<and> id_is_text r"
  shows "\<exists>hits. format_results store threshold raw = Inr hits"
  using assms
proof (induction raw)
  case Nil
  then show ?case by simp
next
  case (Cons r raw)
  then obtain hits where h: "format_results store threshold raw = Inr hits" by auto
  from Cons.prems obtain v x where v: "map_of r (ustr ''score'') = Some v" "num_of v = Some x"
    by (auto simp: row_score_def split: option.splits)
  from Cons.prems format_result_total obtain hit where "format_result store r v = Inr hit"
    by (metis list.set_intros(1))
  with h v show ?case by simp
qed

lemma format_results_filter:
  assumes "format_results store threshold raw = Inr hits"
  shows "list_all2 (formatted_as store) (filter (passes threshold) raw) hits"
  using assms
proof (induction raw arbitrary: hits)
  case Nil
  then show ?case by simp
next
  case (Cons r raw)
  from Cons.prems obtain v x where v: "map_of r (ustr ''score'') = Some v" "num_of v = Some x"
    by (auto split: option.splits)
  show ?case
  proof (cases "threshold \<le> x")
    case True
    with Cons.prems v obtain hit rest where
      hr: "format_result store r v = Inr hit" "format_results store threshold raw = Inr rest"
        "hits = hit # rest"
      by (auto split: sum.splits)
    from Cons.IH[OF hr(2)] hr v True show ?thesis
      by (simp add: passes_def row_score_def formatted_as_def format_result_score)
  next
    case False
    with Cons.prems v have "format_results store threshold raw = Inr hits" by simp
    from Cons.IH[OF this] v False show ?thesis
      by (simp add: passes_def row_score_def)
  qed
qed

lemma formatted_as_passes:
  assumes "list_all2 (formatted_as store) (filter (passes threshold) raw) hits" and "h \<in> set hits"
  shows "\<exists>x. num_of (hit_score h) = Some x \<and> threshold \<le> x"
proof -
  from assms obtain r where r: "r \<in> set (filter (passes threshold) raw)" "formatted_as store r h"
    by (metis in_set_conv_nth list_all2_conv_all_nth)
  then show ?thesis
    by (auto simp: formatted_as_def passes_def row_score_def split: option.splits)
qed

text \<open>
  Claim C7 as stated fails: with threshold 0 the index returns two results within the
  limit, one of them with a negative similarity, and only the other one is kept.
\<close>

theorem search_threshold_zero_drops_negative_score:
  "embeddings_indexed indexed_state \<and>
   req_threshold sample_search = 0 \<and>
   search_outcome scored_world (calls indexed_state) (req_query sample_search)
     (req_limit sample_search) = Inr [near_row, far_row] \<and>
   row_score near_row = Some (5 / 8) \<and>
   row_score far_row = Some (- 1 / 8) \<and>
   fst (search scored_world indexed_state sample_search) =
     Inr \<lparr>s_results = [near_hit], s_message = None, s_query = Some (ustr ''mammals'')\<rparr>"
  by (simp add: search_def search_body_def to_500_def embeddings_search_def Let_def
      scored_world_def sample_search_def near_row_score far_row_score format_near_row
      row_score_def)
     (simp add: indexed_state_def)

text \<open>
  Claim C7, amended. A query is executed in state Indexed and the index returns the rows
  \<open>raw\<close>. When every row carries a numeric score and no row has a non-string id, the
  request returns a result list. Every returned list is exactly the raw results filtered
  to those whose score is at least the threshold, each formatted with its raw score, in
  the order of the index; no returned result has a score below the threshold; and when
  no raw score is below the threshold (with threshold 0: when no score is negative)
  every raw result is kept.
\<close>

theorem search_threshold_filter:
  assumes "embeddings_indexed st"
    and "search_outcome W (calls st) (req_query request) (req_limit request) = Inr raw"
  shows "((\<forall>r \<in> set raw. row_score r \<noteq> None \<and> id_is_text r) \<longrightarrow>
            (\<exists>response. fst (search W st request) = Inr response)) \<and>
         (\<forall>response. fst (search W st request) = Inr response \<longrightarrow>
            list_all2 (formatted_as (documents_store st))
              (filter (passes (req_threshold request)) raw) (s_results response) \<and>
            (\<forall>h \<in> set (s_results response).
               \<exists>x. num_of (hit_score h) = Some x \<and> req_threshold request \<le> x) \<and>
            ((\<forall>r \<in> set raw. passes (req_threshold request) r) \<longrightarrow>
               list_all2 (formatted_as (documents_store st)) raw (s_results response)))"
proof -
  let ?fr = "format_results (documents_store st) (req_threshold request) raw"
  have s: "fst (search W st request) =
      (case ?fr of Inl e \<Rightarrow> Inl (HTTPException 500 (StrOf e))
       | Inr hits \<Rightarrow> Inr \<lparr>s_results = hits, s_message = None, s_query = Some (req_query request)\<rparr>)"
    using assms
    by (simp add: search_def search_body_def to_500_def embeddings_search_def Let_def
        split: sum.splits)
  have a: "\<exists>response. fst (search W st request) = Inr response"
    if "\<forall>r \<in> set raw. row_score r \<noteq> None \<and> id_is_text r"
  proof -
    from format_results_total[OF that] obtain hits where "?fr = Inr hits" by blast
    then show ?thesis by (simp add: s)
  qed
  have b: "list_all2 (formatted_as (documents_store st))
              (filter (passes (req_threshold request)) raw) (s_results response) \<and>
            (\<forall>h \<in> set (s_results response).
               \<exists>x. num_of (hit_score h) = Some x \<and> req_threshold request \<le> x) \<and>
            ((\<forall>r \<in> set raw. passes (req_threshold request) r) \<longrightarrow>
               list_all2 (formatted_as (documents_store st)) raw (s_results response))"
    if "fst (search W st request) = Inr response" for response
  proof -
    from that s obtain hits where h: "?fr = Inr hits" "s_results response = hits"
      by (cases ?fr) auto
    from format_results_filter[OF h(1)]
    have l: "list_all2 (formatted_as (documents_store st))
              (filter (passes (req_threshold request)) raw) hits" .
    have "\<forall>h \<in> set hits. \<exists>x. num_of (hit_score h) = Some x \<and> req_threshold request \<le> x"
      using formatted_as_passes[OF l] by blast
    moreover have "list_all2 (formatted_as (documents_store st)) raw hits"
      if "\<forall>r \<in> set raw. passes (req_threshold request) r"
      using l that by simp
    ultimately show ?thesis using l h(2) by simp
  qed
  from a b show ?thesis by blast
qed

theorem search_threshold_filter_witness:
  "embeddings_indexed indexed_state \<and>
   search_outcome near_world (calls indexed_state) (req_query sample_search)
     (req_limit sample_search) = Inr [near_row] \<and>
   row_score near_row = Some (5 / 8) \<and> id_is_text near_row \<and>
   passes (req_threshold sample_search) near_row \<and>
   fst (search near_world indexed_state sample_search) =
     Inr \<lparr>s_results = [near_hit], s_message = None, s_query = Some (ustr ''mammals'')\<rparr> \<and>
   formatted_as (documents_store indexed_state) near_row near_hit \<and>
   num_of (hit_score near_hit) = Some (5 / 8) \<and> req_threshold sample_search \<le> 5 / 8"
proof -
  let ?R = "\<lparr>s_results = [near_hit], s_message = None, s_query = Some (ustr ''mammals'')\<rparr>"
  have h1: "embeddings_indexed indexed_state"
    by (simp add: indexed_state_def)
  have h2: "search_outcome near_world (calls indexed_state) (req_query sample_search)
     (req_limit sample_search) = Inr [near_row]"
    by (simp add: near_world_def sample_search_def)
  have sc: "row_score near_row = Some (5 / 8)"
    by (simp add: row_score_def near_row_score)
  have it: "id_is_text near_row"
    by (simp add: id_is_text_def near_row_def ustr_def)
  have ps: "passes (req_threshold sample_search) near_row"
    by (simp add: passes_def sc sample_search_def)
  have ev: "fst (search near_world indexed_state sample_search) = Inr ?R"
    using h1 h2
    by (simp add: search_def search_body_def to_500_def embeddings_search_def Let_def
        sample_search_def near_row_score format_near_row)
  from search_threshold_filter[OF h1 h2] ev
  have "list_all2 (formatted_as (documents_store indexed_state))
          (filter (passes (req_threshold sample_search)) [near_row]) (s_results ?R)"
    by blast
  with ps have "formatted_as (documents_store indexed_state) near_row near_hit"
    by simp
  with h1 h2 sc it ps ev show ?thesis
    by (simp add: near_hit_def sample_search_def)
qed

section \<open>Chunk counts\<close>

text \<open>
  Claim C8 as stated fails: after the sample content is ingested a second time, its
  registry entry counts one chunk while the last commit holds two chunks with its
  document id.
\<close>

theorem reingest_chunk_count_mismatch:
  "process_text readback_world empty_state sample_request = (Inr sample_response, indexed_state) \<and>
   process_text readback_world indexed_state sample_request = (Inr sample_response, reindexed_state) \<and>
   map_option chunks (map_of (documents_store reindexed_state) sample_id) = Some 1 \<and>
   last_commit (calls reindexed_state) = Some (sample_documents @ sample_documents) \<and>
   count_doc_chunks sample_id (sample_documents @ sample_documents) = 2"
proof -
  have "map_option chunks (map_of (documents_store reindexed_state) sample_id) = Some 1"
    by (simp add: reindexed_state_def)
  moreover have "last_commit (calls reindexed_state) = Some (sample_documents @ sample_documents)"
    by (simp add: reindexed_state_def last_commit_def)
  moreover have "count_doc_chunks sample_id (sample_documents @ sample_documents) = 2"
    by (simp add: count_doc_chunks_append sample_documents_doc_id)
  ultimately show ?thesis
    by (simp add: first_ingest second_ingest)
qed

text \<open>
  Claim C8, amended. After a successful insert of a document (whose metadata does not
  set \<^verbatim>\<open>doc_id\<close>), its registry entry and the response count as many chunks as the
  segmenter produced from the content. When the append path went through, the last
  commit is the rows that the read-back returned followed by the new chunks, and the
  number of chunks with the document's id in it is this count plus the number of such
  chunks among the read-back rows. In every other case (first commit, fallback commit)
  the last commit is the new chunks alone and holds exactly this count of chunks with
  the document's id.
\<close>

theorem process_text_chunk_count:
  assumes "process_text W st request = (Inr resp, st')"
    and "encode (req_content request) = Inr bytes"
    and "req_metadata request = Some md"
    and "map_of md (ustr ''doc_id'') = None"
  shows "map_of (documents_store st') (md5_hexdigest W bytes) = Some (request_info request) \<and>
         chunks (request_info request) = length (simple_segment (req_content request) 500) \<and>
         resp_chunks resp = length (simple_segment (req_content request) 500) \<and>
         (\<forall>existing. append_succeeds W st (request_documents (md5_hexdigest W bytes) request md)
                       existing \<longrightarrow>
            last_commit (calls st') =
              Some (existing @ request_documents (md5_hexdigest W bytes) request md) \<and>
            count_doc_chunks (md5_hexdigest W bytes)
                (existing @ request_documents (md5_hexdigest W bytes) request md) =
              count_doc_chunks (md5_hexdigest W bytes) existing +
              length (simple_segment (req_content request) 500)) \<and>
         ((\<forall>existing. \<not> append_succeeds W st
                         (request_documents (md5_hexdigest W bytes) request md) existing) \<longrightarrow>
            last_commit (calls st') =
              Some (request_documents (md5_hexdigest W bytes) request md) \<and>
            count_doc_chunks (md5_hexdigest W bytes)
                (request_documents (md5_hexdigest W bytes) request md) =
              length (simple_segment (req_content request) 500))"
proof -
  let ?D = "md5_hexdigest W bytes"
  let ?docs = "request_documents ?D request md"
  have n: "count_doc_chunks ?D ?docs = length (simple_segment (req_content request) 500)"
    by (rule count_doc_chunks_request_documents[OF assms(4)])
  have "chunks (request_info request) = length (simple_segment (req_content request) 500)"
    by (simp add: request_info_def)
  with process_text_commit[OF assms(1,2,3)] n show ?thesis
    by (simp add: count_doc_chunks_append)
qed

theorem process_text_chunk_count_witness:
  "process_text readback_world indexed_state second_request = (Inr second_response, appended_state) \<and>
   encode (req_content second_request) = Inr second_content \<and>
   req_metadata second_request = Some [(ustr ''lang'', VStr (ustr ''en''))] \<and>
   map_of [(ustr ''lang'', VStr (ustr ''en''))] (ustr ''doc_id'') = None \<and>
   append_succeeds readback_world indexed_state second_documents sample_documents \<and>
   map_option chunks (map_of (documents_store appended_state) second_id) = Some 1 \<and>
   length (simple_segment (req_content second_request) 500) = 1 \<and>
   last_commit (calls appended_state) = Some (sample_documents @ second_documents) \<and>
   count_doc_chunks second_id (sample_documents @ second_documents) =
     count_doc_chunks second_id sample_documents + 1 \<and>
   process_text readback_world empty_state sample_request = (Inr sample_response, indexed_state) \<and>
   encode (req_content sample_request) = Inr sample_content \<and>
   req_metadata sample_request = Some [] \<and>
   \<not> embeddings_indexed empty_state \<and>
   last_commit (calls indexed_state) = Some sample_documents \<and>
   count_doc_chunks sample_id sample_documents = 1"
proof -
  have h4: "map_of [(ustr ''lang'', VStr (ustr ''en''))] (ustr ''doc_id'') = None"
    by (simp add: ustr_def)
  have d: "md5_hexdigest readback_world second_content = second_id"
    by (simp add: readback_world_def sample_digest_second)
  have l: "length (simple_segment (req_content second_request) 500) = 1"
    by (simp add: second_request_def second_segment)
  have a: "append_succeeds readback_world indexed_state second_documents sample_documents"
    by (rule append_succeeds_sample)
  from process_text_chunk_count[OF append_ingest second_request_encode second_request_metadata h4]
  have i: "map_of (documents_store appended_state) second_id = Some (request_info second_request)"
      "chunks (request_info second_request) = 1"
      "\<forall>existing. append_succeeds readback_world indexed_state second_documents existing \<longrightarrow>
         last_commit (calls appended_state) = Some (existing @ second_documents) \<and>
         count_doc_chunks second_id (existing @ second_documents) =
           count_doc_chunks second_id existing + 1"
    unfolding d l second_request_documents by simp_all
  from i(3) a have ii: "last_commit (calls appended_state) = Some (sample_documents @ second_documents)"
      "count_doc_chunks second_id (sample_documents @ second_documents) =
         count_doc_chunks second_id sample_documents + 1"
    by blast+
  have h4': "map_of [] (ustr ''doc_id'') = (None :: pyval option)"
    by simp
  have d': "md5_hexdigest readback_world sample_content = sample_id"
    by (simp add: readback_world_def sample_digest_sample)
  have l': "length (simple_segment (req_content sample_request) 500) = 1"
    by (simp add: sample_request_def sample_segment)
  have ne: "\<not> embeddings_indexed empty_state"
    by (simp add: empty_state_def)
  from process_text_chunk_count[OF first_ingest sample_request_encode sample_request_metadata h4']
  have "(\<forall>existing. \<not> append_succeeds readback_world empty_state sample_documents existing) \<longrightarrow>
          last_commit (calls indexed_state) = Some sample_documents \<and>
          count_doc_chunks sample_id sample_documents = 1"
    unfolding d' l' sample_request_documents by simp
  with append_succeeds_empty have iii: "last_commit (calls indexed_state) = Some sample_documents"
      "count_doc_chunks sample_id sample_documents = 1"
    by blast+
  from i(1,2) have "map_option chunks (map_of (documents_store appended_state) second_id) = Some 1"
    by simp
  with append_ingest second_request_encode second_request_metadata h4 a l ii first_ingest
    sample_request_encode sample_request_metadata ne iii
  show ?thesis by (intro conjI)
qed

section \<open>Chunk ids\<close>

text \<open>
  Claim C9 as stated fails: after the sample content is ingested a second time, the last
  commit holds two chunks with the same id.
\<close>

theorem reingest_duplicate_chunk_ids:
  "process_text readback_world indexed_state sample_request = (Inr sample_response, reindexed_state) \<and>
   last_commit (calls reindexed_state) = Some (sample_documents @ sample_documents) \<and>
   row_ids (sample_documents @ sample_documents) =
     [Some (VStr (ustr ''e034881a56d7b2e5df382be723161404_0'')),
      Some (VStr (ustr ''e034881a56d7b2e5df382be723161404_0''))] \<and>
   \<not> distinct (row_ids (sample_documents @ sample_documents))"
proof -
  have "last_commit (calls reindexed_state) = Some (sample_documents @ sample_documents)"
    by (simp add: reindexed_state_def last_commit_def)
  moreover have "row_ids (sample_documents @ sample_documents) =
     [Some (VStr (ustr ''e034881a56d7b2e5df382be723161404_0'')),
      Some (VStr (ustr ''e034881a56d7b2e5df382be723161404_0''))]"
    by (simp add: row_ids_def sample_documents_def)
  ultimately show ?thesis
    by (simp add: second_ingest)
qed

text \<open>
  Claim C9, amended. After a successful insert of a document (whose metadata does not
  set \<^verbatim>\<open>id\<close>), the ids of its new chunks are the document id, an underscore and the
  indices 0, 1, 2, ... in order, and they are pairwise distinct. When the append path
  went through, the last commit is the rows that the read-back returned followed by
  these chunks, without deduplication: its ids are unique exactly when the ids of the
  read-back rows are unique and none of them is the id of a new chunk. In every other
  case the last commit is the new chunks alone.
\<close>

theorem process_text_chunk_ids:
  assumes "process_text W st request = (Inr resp, st')"
    and "encode (req_content request) = Inr bytes"
    and "req_metadata request = Some md"
    and "map_of md (ustr ''id'') = None"
  shows "row_ids (request_documents (md5_hexdigest W bytes) request md) =
           map (\<lambda>i. Some (VStr (md5_hexdigest W bytes @ [95] @ str_nat i)))
             [0..<length (simple_segment (req_content request) 500)] \<and>
         distinct (row_ids (request_documents (md5_hexdigest W bytes) request md)) \<and>
         (\<forall>existing. append_succeeds W st (request_documents (md5_hexdigest W bytes) request md)
                       existing \<longrightarrow>
            last_commit (calls st') =
              Some (existing @ request_documents (md5_hexdigest W bytes) request md) \<and>
            (distinct (row_ids (existing @ request_documents (md5_hexdigest W bytes) request md)) \<longleftrightarrow>
               distinct (row_ids existing) \<and>
               set (row_ids existing) \<inter>
                 set (row_ids (request_documents (md5_hexdigest W bytes) request md)) = {})) \<and>
         ((\<forall>existing. \<not> append_succeeds W st
                         (request_documents (md5_hexdigest W bytes) request md) existing) \<longrightarrow>
            last_commit (calls st') =
              Some (request_documents (md5_hexdigest W bytes) request md))"
proof -
  let ?D = "md5_hexdigest W bytes"
  let ?docs = "request_documents ?D request md"
  have d: "distinct (row_ids ?docs)"
    by (rule distinct_row_ids_request_documents[OF assms(4)])
  have "distinct (row_ids (existing @ ?docs)) \<longleftrightarrow>
          distinct (row_ids existing) \<and> set (row_ids existing) \<inter> set (row_ids ?docs) = {}"
    for existing
    using d by (simp add: row_ids_def)
  with process_text_commit[OF assms(1,2,3)] d row_ids_request_documents[OF assms(4), of ?D request]
  show ?thesis by simp
qed

theorem process_text_chunk_ids_witness:
  "process_text readback_world indexed_state second_request = (Inr second_response, appended_state) \<and>
   encode (req_content second_request) = Inr second_content \<and>
   req_metadata second_request = Some [(ustr ''lang'', VStr (ustr ''en''))] \<and>
   map_of [(ustr ''lang'', VStr (ustr ''en''))] (ustr ''id'') = None \<and>
   append_succeeds readback_world indexed_state second_documents sample_documents \<and>
   row_ids second_documents = [Some (VStr (second_id @ [95] @ str_nat 0))] \<and>
   distinct (row_ids second_documents) \<and>
   last_commit (calls appended_state) = Some (sample_documents @ second_documents) \<and>
   distinct (row_ids sample_documents) \<and>
   set (row_ids sample_documents) \<inter> set (row_ids second_documents) = {} \<and>
   distinct (row_ids (sample_documents @ second_documents))"
proof -
  have h4: "map_of [(ustr ''lang'', VStr (ustr ''en''))] (ustr ''id'') = None"
    by (simp add: ustr_def)
  have d: "md5_hexdigest readback_world second_content = second_id"
    by (simp add: readback_world_def sample_digest_second)
  have l: "length (simple_segment (req_content second_request) 500) = 1"
    by (simp add: second_request_def second_segment)
  have a: "append_succeeds readback_world indexed_state second_documents sample_documents"
    by (rule append_succeeds_sample)
  have ds: "distinct (row_ids sample_documents)"
    by (simp add: row_ids_def sample_documents_def)
  have dj: "set (row_ids sample_documents) \<inter> set (row_ids second_documents) = {}"
    by (simp add: row_ids_def sample_documents_def second_documents_def ustr_def)
  from process_text_chunk_ids[OF append_ingest second_request_encode second_request_metadata h4]
  have i: "row_ids second_documents = map (\<lambda>i. Some (VStr (second_id @ [95] @ str_nat i))) [0..<1]"
      "distinct (row_ids second_documents)"
      "\<forall>existing. append_succeeds readback_world indexed_state second_documents existing \<longrightarrow>
         last_commit (calls appended_state) = Some (existing @ second_documents) \<and>
         (distinct (row_ids (existing @ second_documents)) \<longleftrightarrow>
            distinct (row_ids existing) \<and>
            set (row_ids existing) \<inter> set (row_ids second_documents) = {})"
    unfolding d l second_request_documents by simp_all
  from i(3) a have ii: "last_commit (calls appended_state) = Some (sample_documents @ second_documents)"
      "distinct (row_ids (sample_documents @ second_documents)) \<longleftrightarrow>
         distinct (row_ids sample_documents) \<and>
         set (row_ids sample_documents) \<inter> set (row_ids second_documents) = {}"
    by blast+
  from ii(2) ds dj have iii: "distinct (row_ids (sample_documents @ second_documents))"
    by blast
  from i(1) have iv: "row_ids second_documents = [Some (VStr (second_id @ [95] @ str_nat 0))]"
    by simp
  from append_ingest second_request_encode second_request_metadata h4 a iv i(2) ii(1) ds dj iii
  show ?thesis by (intro conjI)
qed

section \<open>The registry after a failed insert\<close>

text \<open>
  Claim C10. A request fails after a call on the embeddings object has been made. Then
  the content was encoded and the metadata is a dictionary, the failure is status 500
  wrapping the exception of a commit, the last call on the embeddings object is that
  failed commit of the new documents, and the registry nevertheless holds the new entry
  for the document (title, chunk count, metadata): the entry is written before any index
  operation and is not taken back.
\<close>

theorem process_text_registry_written_before_index:
  assumes "process_text W st request = (Inl err, st')"
    and "calls st' \<noteq> calls st"
  shows "\<exists>bytes md e evs.
           encode (req_content request) = Inr bytes \<and>
           req_metadata request = Some md \<and>
           err = HTTPException 500 (StrOf e) \<and>
           calls st' = calls st @ evs @
             [IndexCall (request_documents (md5_hexdigest W bytes) request md) (Some e)] \<and>
           documents_store st' =
             AList.update (md5_hexdigest W bytes)
               \<lparr>title = req_title request,
                chunks = length (simple_segment (req_content request) 500),
                metadata = Some md\<rparr>
               (documents_store st) \<and>
           map_of (documents_store st') (md5_hexdigest W bytes) =
             Some \<lparr>title = req_title request,
                   chunks = length (simple_segment (req_content request) 500),
                   metadata = Some md\<rparr>"
proof -
  from process_text_Inl[OF assms(1)] assms(2) obtain bytes md e evs where
    a: "encode (req_content request) = Inr bytes" "req_metadata request = Some md"
      "err = HTTPException 500 (StrOf e)"
      "calls st' = calls st @ evs @
         [IndexCall (request_documents (md5_hexdigest W bytes) request md) (Some e)]"
    and d: "documents_store st' =
         AList.update (md5_hexdigest W bytes) (request_info request) (documents_store st)"
    by blast
  from d a(2) have d': "documents_store st' =
      AList.update (md5_hexdigest W bytes)
        \<lparr>title = req_title request,
         chunks = length (simple_segment (req_content request) 500),
         metadata = Some md\<rparr>
        (documents_store st)"
    by (simp add: request_info_def)
  then have "map_of (documents_store st') (md5_hexdigest W bytes) =
      Some \<lparr>title = req_title request,
            chunks = length (simple_segment (req_content request) 500),
            metadata = Some md\<rparr>"
    by (simp add: update_conv')
  with a d' show ?thesis by blast
qed

theorem process_text_registry_written_before_index_witness:
  "process_text failing_index_world empty_state sample_request =
     (Inl (HTTPException 500 (StrOf (LibraryError ''commit failed''))), failed_state) \<and>
   calls failed_state \<noteq> calls empty_state \<and>
   calls failed_state = [IndexCall sample_documents (Some (LibraryError ''commit failed''))] \<and>
   map_of (documents_store failed_state) sample_id =
     Some \<lparr>title = ustr ''animals'', chunks = 1, metadata = Some []\<rparr>"
proof -
  have h2: "calls failed_state \<noteq> calls empty_state"
    by (simp add: failed_state_def empty_state_def)
  have d: "md5_hexdigest failing_index_world sample_content = sample_id"
    by (simp add: failing_index_world_def sample_digest_sample)
  from process_text_registry_written_before_index[OF failed_ingest h2]
  obtain bytes md where
    b: "encode (req_content sample_request) = Inr bytes" "req_metadata sample_request = Some md"
    and m: "map_of (documents_store failed_state) (md5_hexdigest failing_index_world bytes) =
       Some \<lparr>title = req_title sample_request,
             chunks = length (simple_segment (req_content sample_request) 500),
             metadata = Some md\<rparr>"
    by blast
  from b have "bytes = sample_content" "md = []"
    by (simp_all add: sample_request_encode sample_request_metadata)
  with m d have "map_of (documents_store failed_state) sample_id =
      Some \<lparr>title = ustr ''animals'', chunks = 1, metadata = Some []\<rparr>"
    by (simp add: sample_request_def sample_segment)
  with failed_ingest h2 show ?thesis
    by (simp add: failed_state_def)
qed

end
